theory Spec2Isabelle
  imports Main "HOL-Library.Word" "HOL-Library.AList" "HOL-Library.Multiset"
begin

section \<open>Data model\<close>

text \<open>
  Go's \<open>int\<close> is a 64-bit two's-complement integer on the 64-bit targets the simulator
  is built for: \<open>+\<close> and \<open>*\<close> wrap, and comparisons read the value signed.
\<close>

type_synonym go_int = "64 word"

text \<open>
  Modelled from the spec: the \<open>clock\<close> package is not among the sources. A clock is one
  instant, here a count of nanoseconds; \<open>Add\<close> yields the instant later by the given
  duration (a \<open>time.Duration\<close>, a signed 64-bit count of nanoseconds).
\<close>

type_synonym clock = int

definition clock_Add :: "clock \<Rightarrow> go_int \<Rightarrow> clock" where
  "clock_Add c d = c + sint d"

definition time_Second :: go_int where
  "time_Second = 1000000000"

text \<open>
  A workload (\<open>v1.Pod\<close>): its name, its resource requests by resource kind, and
  \<open>Spec.NodeName\<close>, empty until a node is assigned.
\<close>

record pod =
  pod_name :: string
  requests :: "(string \<times> nat) list"
  nodeName :: string

text \<open>
  Modelled from the spec: the \<open>node\<close> package is not among the sources. A node has a
  name, a capacity and a current allocation per resource kind, an operating-system label
  and a taint (key, value, effect). A resource kind absent from a mapping has quantity 0.
\<close>

record node =
  node_name :: string
  capacity :: "(string \<times> nat) list"
  allocation :: "(string \<times> nat) list"
  operatingSystem :: string
  taint :: "string \<times> string \<times> string"

text \<open>
  The errors that occur: the queue's \<open>errEmptyPodQueue\<close>, \<open>strongerrors.NotFound\<close> with
  the node name of its message, the bind rejection, an error returned by a plugin, and the
  two errors a done context reports.
\<close>

datatype error =
    ErrEmptyPodQueue
  | NotFound string
  | CapacityExceeded string
  | PluginError string
  | ContextCanceled
  | ContextDeadlineExceeded

text \<open>\<open>HostPriority\<close>: one entry of a scorer's answer.\<close>

record HostPriority =
  Host :: string
  Score :: go_int

text \<open>
  The plugin interfaces \<open>api.Submitter\<close>, \<open>api.Filter\<close> and \<open>api.Scorer\<close>. A Go result
  \<open>(value, err)\<close> with \<open>err != nil\<close> is \<open>Inl err\<close>. A scorer answers with its scores and
  its weight.
  Plugins are taken as functions of their arguments: a plugin that keeps state of its own
  or writes through the pointers it is given is outside this model.
\<close>

type_synonym api_Submitter = "clock \<Rightarrow> node list \<Rightarrow> error + pod list"
type_synonym api_Filter = "pod \<Rightarrow> node \<Rightarrow> error + bool"
type_synonym api_Scorer = "pod \<Rightarrow> node list \<Rightarrow> error + (HostPriority list \<times> go_int)"

text \<open>
  Every call that leaves the orchestrator is recorded: the position of the plugin in its
  registration list and the arguments it was given, or the registry key of the node whose
  \<open>CreatePod\<close> was invoked.
\<close>

datatype call =
    SubmitCall nat clock "node list"
  | FilterCall nat pod node
  | ScoreCall nat pod "node list"
  | CreatePodCall string clock pod

text \<open>
  \<open>KubeSim\<close>. The map \<open>nodes\<close> is an association list read with \<open>map_of\<close> and written
  with \<open>AList.update\<close>; \<open>pods\<close> is the queue; \<open>trace\<close> is the record of calls made so
  far and is not a field of the Go struct.
\<close>

record kubesim =
  nodes :: "(string \<times> node) list"
  pods :: "pod list"
  tick :: go_int
  submitters :: "api_Submitter list"
  filters :: "api_Filter list"
  scorers :: "api_Scorer list"
  trace :: "call list"

section \<open>Iteration over a Go map\<close>

text \<open>
  \<open>for k, v := range m\<close> visits every entry once, in an order the runtime chooses. The
  choices are an explicit argument: each number picks the next entry among those not yet
  visited, and when the numbers run out the remaining entries follow in stored order.
\<close>

fun mapRange :: "nat list \<Rightarrow> 'a list \<Rightarrow> 'a list" where
  "mapRange _ [] = []"
| "mapRange [] es = es"
| "mapRange (c # cs) (e # es) =
     (let i = c mod length (e # es)
      in (e # es) ! i # mapRange cs (take i (e # es) @ drop (Suc i) (e # es)))"

section \<open>Pod queue and node operations\<close>

text \<open>
  Modelled from the spec: \<open>podQueue\<close> is not among the sources. \<open>append\<close> inserts at the
  tail; \<open>pop\<close> removes and returns the head, or reports the empty queue.
\<close>

definition append_pod :: "pod list \<Rightarrow> pod \<Rightarrow> pod list" where
  "append_pod q p = q @ [p]"

fun pop :: "pod list \<Rightarrow> (error + pod) \<times> pod list" where
  "pop [] = (Inl ErrEmptyPodQueue, [])"
| "pop (p # q) = (Inr p, q)"

text \<open>Modelled from the spec: \<open>ToV1\<close> gives a read-only view of the node, here a copy.\<close>

definition ToV1 :: "node \<Rightarrow> node" where
  "ToV1 n = n"

text \<open>
  Modelled from the spec: \<open>CreatePod\<close> (the spec's \<open>bind\<close>) is not among the sources. It
  checks, for every requested resource kind, that allocation plus request is at most the
  capacity; if so it increments the allocation by the request, otherwise it fails and
  changes nothing. \<open>qty\<close> reads a resource mapping at a kind, 0 when the kind is absent.
\<close>

definition qty :: "(string \<times> nat) list \<Rightarrow> string \<Rightarrow> nat" where
  "qty m kind = (case map_of m kind of None \<Rightarrow> 0 | Some q \<Rightarrow> q)"

definition fits :: "node \<Rightarrow> pod \<Rightarrow> bool" where
  "fits n p = list_all
     (\<lambda>kind. qty (allocation n) kind + qty (requests p) kind \<le> qty (capacity n) kind)
     (map fst (requests p))"

definition allocate :: "(string \<times> nat) list \<Rightarrow> (string \<times> nat) list \<Rightarrow> (string \<times> nat) list" where
  "allocate alloc req =
     fold (\<lambda>kind a. AList.update kind (qty alloc kind + qty req kind) a) (map fst req) alloc"

definition CreatePod :: "node \<Rightarrow> clock \<Rightarrow> pod \<Rightarrow> error + node" where
  "CreatePod n clk p =
     (if fits n p then Inr (n\<lparr>allocation := allocate (allocation n) (requests p)\<rparr>)
      else Inl (CapacityExceeded (node_name n)))"

section \<open>Plugin calls\<close>

definition callSubmit ::
  "nat \<Rightarrow> api_Submitter \<Rightarrow> clock \<Rightarrow> node list \<Rightarrow> call list \<Rightarrow> (error + pod list) \<times> call list" where
  "callSubmit i s clk ns tr = (s clk ns, tr @ [SubmitCall i clk ns])"

definition callFilter ::
  "nat \<Rightarrow> api_Filter \<Rightarrow> pod \<Rightarrow> node \<Rightarrow> call list \<Rightarrow> (error + bool) \<times> call list" where
  "callFilter i f p n tr = (f p n, tr @ [FilterCall i p n])"

definition callScore ::
  "nat \<Rightarrow> api_Scorer \<Rightarrow> pod \<Rightarrow> node list \<Rightarrow> call list
     \<Rightarrow> (error + (HostPriority list \<times> go_int)) \<times> call list" where
  "callScore i s p ns tr = (s p ns, tr @ [ScoreCall i p ns])"

definition callCreatePod ::
  "string \<Rightarrow> node \<Rightarrow> clock \<Rightarrow> pod \<Rightarrow> call list \<Rightarrow> (error + node) \<times> call list" where
  "callCreatePod key n clk p tr = (CreatePod n clk p, tr @ [CreatePodCall key clk p])"

section \<open>submit\<close>

text \<open>The inner loop of \<open>submit\<close>: every produced pod is appended to the queue.\<close>

fun appendAll :: "pod list \<Rightarrow> pod list \<Rightarrow> pod list" where
  "appendAll q [] = q"
| "appendAll q (p # ps) = appendAll (append_pod q p) ps"

fun submitLoop ::
  "nat \<Rightarrow> api_Submitter list \<Rightarrow> clock \<Rightarrow> node list \<Rightarrow> pod list \<Rightarrow> call list
     \<Rightarrow> error option \<times> pod list \<times> call list" where
  "submitLoop i [] clk ns q tr = (None, q, tr)"
| "submitLoop i (s # ss) clk ns q tr =
     (case callSubmit i s clk ns tr of
        (Inl err, tr') \<Rightarrow> (Some err, q, tr')
      | (Inr ps, tr') \<Rightarrow> submitLoop (Suc i) ss clk ns (appendAll q ps) tr')"

definition submit :: "kubesim \<Rightarrow> clock \<Rightarrow> node list \<Rightarrow> error option \<times> kubesim" where
  "submit k clk ns =
     (case submitLoop 0 (submitters k) clk ns (pods k) (trace k) of
        (err, q, tr) \<Rightarrow> (err, k\<lparr>pods := q, trace := tr\<rparr>))"

section \<open>scheduleOneFilter\<close>

text \<open>The inner loop: one filter over the current node list, collecting \<open>nodesOk\<close>.\<close>

fun filterNodes ::
  "nat \<Rightarrow> api_Filter \<Rightarrow> pod \<Rightarrow> node list \<Rightarrow> node list \<Rightarrow> call list
     \<Rightarrow> (error + node list) \<times> call list" where
  "filterNodes i f p [] nodesOk tr = (Inr nodesOk, tr)"
| "filterNodes i f p (n # ns) nodesOk tr =
     (case callFilter i f p n tr of
        (Inl err, tr') \<Rightarrow> (Inl err, tr')
      | (Inr ok, tr') \<Rightarrow> filterNodes i f p ns (if ok then nodesOk @ [n] else nodesOk) tr')"

text \<open>
  The outer loop over the filters. Its node list is the local variable \<open>nodes\<close> of
  \<open>scheduleOneFilter\<close>, replaced by \<open>nodesOk\<close> after each filter.
\<close>

fun filterLoop ::
  "nat \<Rightarrow> api_Filter list \<Rightarrow> pod \<Rightarrow> node list \<Rightarrow> call list
     \<Rightarrow> (error + node list) \<times> call list" where
  "filterLoop i [] p ns tr = (Inr ns, tr)"
| "filterLoop i (f # fs) p ns tr =
     (case filterNodes i f p ns [] tr of
        (Inl err, tr') \<Rightarrow> (Inl err, tr')
      | (Inr nodesOk, tr') \<Rightarrow> filterLoop (Suc i) fs p nodesOk tr')"

text \<open>
  \<open>scheduleOneFilter\<close> returns only an error: the final value of its local node list is
  dropped, and the caller's list is the one it passed in.
\<close>

definition scheduleOneFilter :: "kubesim \<Rightarrow> pod \<Rightarrow> node list \<Rightarrow> error option \<times> kubesim" where
  "scheduleOneFilter k p ns =
     (case filterLoop 0 (filters k) p ns (trace k) of
        (Inl err, tr) \<Rightarrow> (Some err, k\<lparr>trace := tr\<rparr>)
      | (Inr _, tr) \<Rightarrow> (None, k\<lparr>trace := tr\<rparr>))"

section \<open>scheduleOneScore\<close>

text \<open>\<open>nodeScore\<close> is a Go map from host to int; a missing key reads as 0.\<close>

definition getScore :: "(string \<times> go_int) list \<Rightarrow> string \<Rightarrow> go_int" where
  "getScore m h = (case map_of m h of None \<Rightarrow> 0 | Some v \<Rightarrow> v)"

text \<open>\<open>nodeScore[score.Host] += score.Score * weight\<close>\<close>

definition addScore :: "go_int \<Rightarrow> (string \<times> go_int) list \<Rightarrow> HostPriority \<Rightarrow> (string \<times> go_int) list" where
  "addScore weight m sc = AList.update (Host sc) (getScore m (Host sc) + Score sc * weight) m"

fun addScores :: "go_int \<Rightarrow> (string \<times> go_int) list \<Rightarrow> HostPriority list \<Rightarrow> (string \<times> go_int) list" where
  "addScores weight m [] = m"
| "addScores weight m (sc # scs) = addScores weight (addScore weight m sc) scs"

fun scoreLoop ::
  "nat \<Rightarrow> api_Scorer list \<Rightarrow> pod \<Rightarrow> node list \<Rightarrow> (string \<times> go_int) list \<Rightarrow> call list
     \<Rightarrow> (error + (string \<times> go_int) list) \<times> call list" where
  "scoreLoop i [] p ns nodeScore tr = (Inr nodeScore, tr)"
| "scoreLoop i (s # ss) p ns nodeScore tr =
     (case callScore i s p ns tr of
        (Inl err, tr') \<Rightarrow> (Inl err, tr')
      | (Inr (scores, weight), tr') \<Rightarrow>
          scoreLoop (Suc i) ss p ns (addScores weight nodeScore scores) tr')"

text \<open>The selection loop; its state is \<open>(scoreMaxNode, scoreMax)\<close>.\<close>

fun scoreMaxLoop :: "(string \<times> go_int) list \<Rightarrow> string \<times> go_int \<Rightarrow> string \<times> go_int" where
  "scoreMaxLoop [] acc = acc"
| "scoreMaxLoop ((h, score) # es) (scoreMaxNode, scoreMax) =
     (if scoreMax <s score then scoreMaxLoop es (h, score)
      else scoreMaxLoop es (scoreMaxNode, scoreMax))"

text \<open>
  The result carries the registry key of the selected node (what the returned pointer
  refers to), the node, and the pod with \<open>Spec.NodeName\<close> set.
\<close>

definition scheduleOneScore ::
  "kubesim \<Rightarrow> pod \<Rightarrow> node list \<Rightarrow> nat list \<Rightarrow> (error + (string \<times> node \<times> pod)) \<times> kubesim" where
  "scheduleOneScore k p ns ord =
     (case scoreLoop 0 (scorers k) p ns [] (trace k) of
        (Inl err, tr) \<Rightarrow> (Inl err, k\<lparr>trace := tr\<rparr>)
      | (Inr nodeScore, tr) \<Rightarrow>
          (case scoreMaxLoop (mapRange ord nodeScore) ('''', - 1) of
             (scoreMaxNode, scoreMax) \<Rightarrow>
               (case map_of (nodes k) scoreMaxNode of
                  None \<Rightarrow> (Inl (NotFound scoreMaxNode), k\<lparr>trace := tr\<rparr>)
                | Some nodeSelected \<Rightarrow>
                    (Inr (scoreMaxNode, nodeSelected, p\<lparr>nodeName := scoreMaxNode\<rparr>),
                     k\<lparr>trace := tr\<rparr>))))"

section \<open>scheduleOne\<close>

text \<open>
  The queue reports no error other than \<open>errEmptyPodQueue\<close>, so the test
  \<open>err == errEmptyPodQueue\<close> is the match on \<open>Inl\<close>. The same list \<open>nodes\<close> goes to
  \<open>scheduleOneFilter\<close> and to \<open>scheduleOneScore\<close>. \<open>CreatePod\<close> acts through the pointer
  held in the registry, so its effect is written back under the selected key.
\<close>

definition scheduleOne ::
  "kubesim \<Rightarrow> clock \<Rightarrow> node list \<Rightarrow> nat list \<Rightarrow> error option \<times> kubesim" where
  "scheduleOne k clk ns ord =
     (case pop (pods k) of
        (Inl _, q) \<Rightarrow> (None, k\<lparr>pods := q\<rparr>)
      | (Inr p, q) \<Rightarrow>
          (case scheduleOneFilter (k\<lparr>pods := q\<rparr>) p ns of
             (Some err, k1) \<Rightarrow> (Some err, k1)
           | (None, k1) \<Rightarrow>
               (case scheduleOneScore k1 p ns ord of
                  (Inl err, k2) \<Rightarrow> (Some err, k2)
                | (Inr (key, nodeSelected, p'), k2) \<Rightarrow>
                    (case callCreatePod key nodeSelected clk p' (trace k2) of
                       (Inl err, tr) \<Rightarrow> (Some err, k2\<lparr>trace := tr\<rparr>)
                     | (Inr n', tr) \<Rightarrow>
                         (None, k2\<lparr>nodes := AList.update key n' (nodes k2), trace := tr\<rparr>)))))"

section \<open>Run\<close>

text \<open>
  Each round of the \<open>select\<close> is one event: the context is done (with its error), or a
  tick arrives. A tick carries the two iteration orders the runtime picks in that round,
  for the node registry and for \<open>nodeScore\<close>. When the events run out the loop is still
  waiting and has returned nothing.
\<close>

datatype event = Done error | Tick "nat list" "nat list"

text \<open>The conversion loop at the head of each tick: one view per registry entry.\<close>

definition snapshot :: "kubesim \<Rightarrow> nat list \<Rightarrow> node list" where
  "snapshot k ordNodes = map (\<lambda>(key, n). ToV1 n) (mapRange ordNodes (nodes k))"

fun Run :: "kubesim \<Rightarrow> clock \<Rightarrow> event list \<Rightarrow> error option \<times> kubesim" where
  "Run k clk [] = (None, k)"
| "Run k clk (Done err # evs) = (Some err, k)"
| "Run k clk (Tick ordNodes ordScore # evs) =
     (let clk' = clock_Add clk (tick k * time_Second);
          ns = snapshot k ordNodes
      in case submit k clk' ns of
           (Some err, k1) \<Rightarrow> (Some err, k1)
         | (None, k1) \<Rightarrow>
             (case scheduleOne k1 clk' ns ordScore of
                (Some err, k2) \<Rightarrow> (Some err, k2)
              | (None, k2) \<Rightarrow> Run k2 clk' evs))"

section \<open>Notions used to state the properties\<close>

text \<open>
  What the spec calls the accumulated total: the contribution of one scorer to a host is
  the sum of its scores for that host, each times the scorer's weight; the total of a
  host is the sum of the contributions of all scorers. \<open>answers\<close> is the list of what the
  scorers returned, in registration order.
\<close>

definition hostScore :: "string \<Rightarrow> HostPriority list \<Rightarrow> go_int \<Rightarrow> go_int" where
  "hostScore h scores weight =
     sum_list (map (\<lambda>sc. Score sc * weight) (filter (\<lambda>sc. Host sc = h) scores))"

definition weightedTotal :: "(HostPriority list \<times> go_int) list \<Rightarrow> string \<Rightarrow> go_int" where
  "weightedTotal answers h =
     sum_list (map (\<lambda>(scores, weight). hostScore h scores weight) answers)"

definition scoredHosts :: "(HostPriority list \<times> go_int) list \<Rightarrow> string list" where
  "scoredHosts answers = concat (map (\<lambda>(scores, weight). map Host scores) answers)"

text \<open>\<open>nodeScore\<close> after the scoring loop has consumed the given answers.\<close>

fun accumulate ::
  "(string \<times> go_int) list \<Rightarrow> (HostPriority list \<times> go_int) list \<Rightarrow> (string \<times> go_int) list" where
  "accumulate m [] = m"
| "accumulate m ((scores, weight) # answers) = accumulate (addScores weight m scores) answers"

text \<open>
  What a recorded filter call returned: filters are functions of their arguments, so the
  result is read off the registered filter at the recorded position.
\<close>

fun filterCallResult :: "api_Filter list \<Rightarrow> call \<Rightarrow> (error + bool) option" where
  "filterCallResult fs (FilterCall i p n) = (if i < length fs then Some ((fs ! i) p n) else None)"
| "filterCallResult fs _ = None"

definition callSucceeded :: "api_Filter list \<Rightarrow> call \<Rightarrow> bool" where
  "callSucceeded fs c = (case filterCallResult fs c of Some (Inr b) \<Rightarrow> True | _ \<Rightarrow> False)"

definition attemptCalls :: "api_Filter list \<Rightarrow> error + 'a \<Rightarrow> call list \<Rightarrow> bool" where
  "attemptCalls fs r cs =
     (case r of
        Inr _ \<Rightarrow> list_all (callSucceeded fs) cs
      | Inl err \<Rightarrow> cs \<noteq> [] \<and> filterCallResult fs (last cs) = Some (Inl err)
                   \<and> list_all (callSucceeded fs) (butlast cs))"

section \<open>Example clusters\<close>

definition exNode :: "string \<Rightarrow> nat \<Rightarrow> node" where
  "exNode nm cpu = \<lparr>node_name = nm, capacity = [(''cpu'', cpu)], allocation = [],
     operatingSystem = ''linux'', taint = ('''', '''', '''')\<rparr>"

definition exPod :: "string \<Rightarrow> nat \<Rightarrow> pod" where
  "exPod nm cpu = \<lparr>pod_name = nm, requests = [(''cpu'', cpu)], nodeName = ''''\<rparr>"

text \<open>
  A filter that rejects the node named B, and a scorer that scores every node it is
  given: 3 for B, 1 for any other, with weight 1.
\<close>

definition rejectB :: api_Filter where
  "rejectB p n = Inr (node_name n \<noteq> ''B'')"

definition preferB :: api_Scorer where
  "preferB p ns =
     Inr (map (\<lambda>n. \<lparr>Host = node_name n, Score = (if node_name n = ''B'' then 3 else 1)\<rparr>) ns, 1)"

definition simAB :: kubesim where
  "simAB = \<lparr>nodes = [(''A'', exNode ''A'' 4), (''B'', exNode ''B'' 4)], pods = [exPod ''w'' 1],
     tick = 10, submitters = [], filters = [rejectB], scorers = [preferB], trace = []\<rparr>"

text \<open>
  The spec's aggregation example: scorer S1 with weight 2 and scores A:1, B:3, scorer S2
  with weight 1 and scores A:5, B:0, over the nodes A and B, with no filter.
\<close>

definition scorerS1 :: api_Scorer where
  "scorerS1 p ns = Inr ([\<lparr>Host = ''A'', Score = 1\<rparr>, \<lparr>Host = ''B'', Score = 3\<rparr>], 2)"

definition scorerS2 :: api_Scorer where
  "scorerS2 p ns = Inr ([\<lparr>Host = ''A'', Score = 5\<rparr>, \<lparr>Host = ''B'', Score = 0\<rparr>], 1)"

definition simS1S2 :: kubesim where
  "simS1S2 = \<lparr>nodes = [(''A'', exNode ''A'' 4), (''B'', exNode ''B'' 4)], pods = [exPod ''w'' 1],
     tick = 10, submitters = [], filters = [], scorers = [scorerS1, scorerS2], trace = []\<rparr>"

text \<open>A scorer whose totals are negative: A:-1, B:-5, weight 1.\<close>

definition scorerNeg :: api_Scorer where
  "scorerNeg p ns = Inr ([\<lparr>Host = ''A'', Score = - 1\<rparr>, \<lparr>Host = ''B'', Score = - 5\<rparr>], 1)"

definition simNeg :: kubesim where
  "simNeg = simS1S2\<lparr>scorers := [scorerNeg]\<rparr>"

text \<open>A cluster with no scorer whose single node has the empty name.\<close>

definition simNameless :: kubesim where
  "simNameless = \<lparr>nodes = [('''', exNode '''' 4)], pods = [exPod ''w'' 1],
     tick = 10, submitters = [], filters = [], scorers = [], trace = []\<rparr>"

text \<open>A cluster with no scorer and one node A.\<close>

definition simNoScorer :: kubesim where
  "simNoScorer = simS1S2\<lparr>nodes := [(''A'', exNode ''A'' 4)], scorers := []\<rparr>"

text \<open>A scorer that names a host the registry does not hold.\<close>

definition scorerGhost :: api_Scorer where
  "scorerGhost p ns = Inr ([\<lparr>Host = ''ghost'', Score = 1\<rparr>], 1)"

definition simGhost :: kubesim where
  "simGhost = simS1S2\<lparr>scorers := [scorerGhost]\<rparr>"

text \<open>A filter that accepts every node, and the cluster \<open>simAB\<close> with it as second filter.\<close>

definition acceptAll :: api_Filter where
  "acceptAll p n = Inr True"

definition simTwoFilters :: kubesim where
  "simTwoFilters = simAB\<lparr>filters := [rejectB, acceptAll]\<rparr>"

text \<open>A filter that fails on node B, and the cluster \<open>simAB\<close> with it as second filter.\<close>

definition failOnB :: api_Filter where
  "failOnB p n = (if node_name n = ''B'' then Inl (PluginError ''filter'') else Inr True)"

definition simFailing :: kubesim where
  "simFailing = simAB\<lparr>filters := [acceptAll, failOnB, acceptAll]\<rparr>"

text \<open>
  Submitters: one that emits a pod requesting one cpu on every tick, one that emits
  nothing, and one that fails.
\<close>

definition submitOne :: api_Submitter where
  "submitOne clk ns = Inr [exPod ''w'' 1]"

definition submitNone :: api_Submitter where
  "submitNone clk ns = Inr []"

definition submitFails :: api_Submitter where
  "submitFails clk ns = Inl (PluginError ''submitter'')"

definition simSubmit :: kubesim where
  "simSubmit = \<lparr>nodes = [(''A'', exNode ''A'' 4)], pods = [],
     tick = 10, submitters = [submitOne, submitNone], filters = [], scorers = [preferB], trace = []\<rparr>"

definition simSubmitFails :: kubesim where
  "simSubmitFails = simSubmit\<lparr>submitters := [submitOne, submitFails, submitOne]\<rparr>"

definition simIdle :: kubesim where
  "simIdle = simSubmit\<lparr>submitters := [submitNone]\<rparr>"

text \<open>The capacity invariant: on a node, and on every node of the registry.\<close>

definition withinCapacity :: "node \<Rightarrow> bool" where
  "withinCapacity n = list_all
     (\<lambda>kind. qty (allocation n) kind \<le> qty (capacity n) kind) (map fst (allocation n))"

definition capacityInvariant :: "kubesim \<Rightarrow> bool" where
  "capacityInvariant k = list_all (\<lambda>entry. withinCapacity (snd entry)) (nodes k)"

text \<open>A node A with two cpus and a queued pod that requests three.\<close>

definition simSmall :: kubesim where
  "simSmall = \<lparr>nodes = [(''A'', exNode ''A'' 2)], pods = [exPod ''big'' 3],
     tick = 10, submitters = [], filters = [], scorers = [preferB], trace = []\<rparr>"


text \<open>A cluster with no node: a queued pod, the filter and the scorer of \<open>simAB\<close>.\<close>

definition simEmpty :: kubesim where
  "simEmpty = simAB\<lparr>nodes := []\<rparr>"

text \<open>Whether a recorded call is a call of a submitter.\<close>

fun isSubmitCall :: "call \<Rightarrow> bool" where
  "isSubmitCall (SubmitCall i clk ns) = True"
| "isSubmitCall c = False"

section \<open>Iteration order\<close>

lemma mset_mapRange: "mset (mapRange cs es) = mset es"
proof (induction cs es rule: mapRange.induct)
  case (3 c cs e es)
  define i where "i = c mod length (e # es)"
  define rest where "rest = take i (e # es) @ drop (Suc i) (e # es)"
  have i: "i < length (e # es)" unfolding i_def by simp
  have unfold: "mapRange (c # cs) (e # es) = (e # es) ! i # mapRange cs rest"
    by (simp add: Let_def i_def rest_def)
  have "e # es = take i (e # es) @ (e # es) ! i # drop (Suc i) (e # es)"
    using i by (rule id_take_nth_drop)
  then have "mset (e # es) = mset (take i (e # es) @ (e # es) ! i # drop (Suc i) (e # es))"
    by simp
  also have "\<dots> = add_mset ((e # es) ! i) (mset rest)"
    by (simp add: rest_def)
  finally have whole: "mset (e # es) = add_mset ((e # es) ! i) (mset rest)" .
  have "mset (mapRange cs rest) = mset rest"
    using "3.IH" [of i] by (simp add: i_def rest_def)
  then have "mset (mapRange (c # cs) (e # es)) = add_mset ((e # es) ! i) (mset rest)"
    by (simp only: unfold mset.simps)
  with whole show ?case by simp
qed simp_all

lemma set_mapRange: "set (mapRange cs es) = set es"
  by (metis mset_mapRange set_mset_mset)

lemma distinct_keys_mapRange:
  "distinct (map fst es) \<Longrightarrow> distinct (map fst (mapRange cs es))"
proof -
  assume d: "distinct (map fst es)"
  have "mset (map fst (mapRange cs es)) = mset (map fst es)"
    by (simp add: mset_mapRange)
  then show ?thesis using d by (metis mset_eq_imp_distinct_iff)
qed

text \<open>Every order of the entries is the result of some choices.\<close>

lemma mapRange_complete: "mset ys = mset es \<Longrightarrow> \<exists>cs. mapRange cs es = ys"
proof (induction ys arbitrary: es)
  case Nil
  then show ?case by simp
next
  case (Cons y ys)
  then have "y \<in> set es" by (metis list.set_intros(1) mset_eq_setD)
  then obtain i where i: "i < length es" "es ! i = y" by (auto simp: in_set_conv_nth)
  have split: "es = take i es @ y # drop (Suc i) es" using i id_take_nth_drop by blast
  have "mset es = add_mset y (mset (take i es @ drop (Suc i) es))"
    by (subst split) simp
  with Cons.prems have "mset ys = mset (take i es @ drop (Suc i) es)" by simp
  from Cons.IH [OF this] obtain cs where cs: "mapRange cs (take i es @ drop (Suc i) es) = ys" by blast
  from i obtain e es' where es: "es = e # es'" by (cases es) auto
  have "mapRange (i # cs) es = ys' " if "ys' = y # ys" for ys'
    using i cs that unfolding es by (simp add: Let_def)
  then show ?case by blast
qed

section \<open>Selection of the maximum\<close>

lemma scoreMaxLoop_keep:
  "\<forall>e\<in>set es. \<not> (snd acc <s snd e) \<Longrightarrow> scoreMaxLoop es acc = acc"
  by (induction es acc rule: scoreMaxLoop.induct) auto

lemma scoreMaxLoop_unique:
  "\<forall>e\<in>set es. e = (h, t) \<or> snd e <s t \<Longrightarrow>
   acc = (h, t) \<or> (snd acc <s t \<and> (h, t) \<in> set es) \<Longrightarrow>
   scoreMaxLoop es acc = (h, t)"
proof (induction es acc rule: scoreMaxLoop.induct)
  case (1 acc)
  then show ?case by simp
next
  case (2 h' score es scoreMaxNode scoreMax)
  show ?case
  proof (cases "scoreMax <s score")
    case True
    have "(h', score) = (h, t) \<or> (score <s t \<and> (h, t) \<in> set es)"
      using "2.prems" True by (auto dest: signed.less_asym)
    with "2.IH"(1) [OF True] "2.prems"(1) True show ?thesis by simp
  next
    case False
    have "(scoreMaxNode, scoreMax) = (h, t) \<or> (scoreMax <s t \<and> (h, t) \<in> set es)"
      using "2.prems" False by auto
    with "2.IH"(2) [OF False] "2.prems"(1) False show ?thesis by simp
  qed
qed

section \<open>Score accumulation\<close>

lemma getScore_Nil: "getScore [] h = 0"
  by (simp add: getScore_def)

lemma getScore_addScore:
  "getScore (addScore w m sc) h = (if h = Host sc then getScore m h + Score sc * w else getScore m h)"
  by (simp add: addScore_def getScore_def update_conv')

lemma getScore_addScores: "getScore (addScores w m scs) h = getScore m h + hostScore h scs w"
  by (induction scs arbitrary: m) (auto simp: getScore_addScore hostScore_def)

lemma keys_addScores: "fst ` set (addScores w m scs) = fst ` set m \<union> Host ` set scs"
  by (induction scs arbitrary: m) (auto simp: addScore_def dom_update)

lemma distinct_addScores: "distinct (map fst m) \<Longrightarrow> distinct (map fst (addScores w m scs))"
  by (induction scs arbitrary: m) (auto simp: addScore_def distinct_update)

lemma getScore_accumulate: "getScore (accumulate m answers) h = getScore m h + weightedTotal answers h"
  by (induction m answers rule: accumulate.induct)
     (auto simp: getScore_addScores weightedTotal_def)

lemma keys_accumulate: "fst ` set (accumulate m answers) = fst ` set m \<union> set (scoredHosts answers)"
  by (induction m answers rule: accumulate.induct)
     (auto simp: keys_addScores scoredHosts_def)

lemma distinct_accumulate: "distinct (map fst m) \<Longrightarrow> distinct (map fst (accumulate m answers))"
  by (induction m answers rule: accumulate.induct) (auto simp: distinct_addScores)

lemma scoreLoop_answers:
  "map (\<lambda>s. s p ns) ss = map Inr answers \<Longrightarrow>
   scoreLoop i ss p ns m tr =
     (Inr (accumulate m answers), tr @ map (\<lambda>j. ScoreCall j p ns) [i..<i + length ss])"
proof (induction ss arbitrary: i m tr answers)
  case Nil
  then show ?case by simp
next
  case (Cons s ss)
  then obtain a as where answers: "answers = a # as" "s p ns = Inr a" "map (\<lambda>s. s p ns) ss = map Inr as"
    by (cases answers) auto
  obtain scores weight where a: "a = (scores, weight)" by (cases a)
  have range: "[i..<Suc (i + length ss)] = i # [Suc i..<Suc (i + length ss)]"
    by (rule upt_conv_Cons) simp
  show ?case
    using Cons.IH [OF answers(3)] answers(2)
    by (simp add: callScore_def answers(1) a range del: upt_Suc)
qed

lemma entry_accumulate:
  assumes "h \<in> set (scoredHosts answers)"
  shows "(h, weightedTotal answers h) \<in> set (accumulate [] answers)"
proof -
  have "h \<in> fst ` set (accumulate [] answers)" using assms by (simp add: keys_accumulate)
  then obtain t where t: "(h, t) \<in> set (accumulate [] answers)" by force
  have d: "distinct (map fst (accumulate [] answers))" by (simp add: distinct_accumulate)
  have "map_of (accumulate [] answers) h = Some t" using t d by simp
  then have "getScore (accumulate [] answers) h = t" by (simp add: getScore_def)
  then have "t = weightedTotal answers h" by (simp add: getScore_accumulate getScore_Nil)
  with t show ?thesis by simp
qed

lemma entries_accumulate:
  assumes "(h, t) \<in> set (accumulate [] answers)"
  shows "h \<in> set (scoredHosts answers) \<and> t = weightedTotal answers h"
proof -
  have h: "h \<in> set (scoredHosts answers)"
    using assms keys_accumulate [of "[]" answers] by force
  have d: "distinct (map fst (accumulate [] answers))" by (simp add: distinct_accumulate)
  have "map_of (accumulate [] answers) h = Some t" using assms d by simp
  then have "getScore (accumulate [] answers) h = t" by (simp add: getScore_def)
  then have "t = weightedTotal answers h" by (simp add: getScore_accumulate getScore_Nil)
  with h show ?thesis by simp
qed

section \<open>The filter loops\<close>

lemma filterNodes_accepts:
  "filterNodes i f p ns ok tr = (Inr oks, tr') \<Longrightarrow>
     oks = ok @ filter (\<lambda>n. f p n = Inr True) ns \<and> tr' = tr @ map (FilterCall i p) ns"
proof (induction ns arbitrary: ok tr)
  case Nil
  then show ?case by simp
next
  case (Cons n ns)
  show ?case
  proof (cases "f p n")
    case (Inl err)
    with Cons.prems show ?thesis by (simp add: callFilter_def)
  next
    case (Inr b)
    with Cons.prems have
      "filterNodes i f p ns (if b then ok @ [n] else ok) (tr @ [FilterCall i p n]) = (Inr oks, tr')"
      by (simp add: callFilter_def)
    from Cons.IH [OF this] Inr show ?thesis by (cases b) simp_all
  qed
qed

lemma filterNodes_calls:
  "i < length fs \<Longrightarrow> filterNodes i (fs ! i) p ns ok tr = (r, tr') \<Longrightarrow>
     \<exists>cs. tr' = tr @ cs \<and> attemptCalls fs r cs \<and> set cs \<subseteq> FilterCall i p ` set ns"
proof (induction ns arbitrary: ok tr)
  case Nil
  then show ?case by (auto simp: attemptCalls_def)
next
  case (Cons n ns)
  show ?case
  proof (cases "(fs ! i) p n")
    case (Inl err)
    with Cons.prems have "r = Inl err" "tr' = tr @ [FilterCall i p n]"
      by (auto simp: callFilter_def)
    with Inl Cons.prems(1) show ?thesis
      by (auto simp: attemptCalls_def)
  next
    case (Inr b)
    with Cons.prems have
      "filterNodes i (fs ! i) p ns (if b then ok @ [n] else ok) (tr @ [FilterCall i p n]) = (r, tr')"
      by (simp add: callFilter_def)
    from Cons.IH [OF Cons.prems(1) this] obtain cs where
      cs: "tr' = (tr @ [FilterCall i p n]) @ cs" "attemptCalls fs r cs"
          "set cs \<subseteq> FilterCall i p ` set ns" by blast
    have first: "callSucceeded fs (FilterCall i p n)"
      using Inr Cons.prems(1) by (simp add: callSucceeded_def)
    have "attemptCalls fs r (FilterCall i p n # cs)"
      using cs(2) first by (cases r) (auto simp: attemptCalls_def)
    with cs show ?thesis by auto
  qed
qed

lemma drop_Cons_nth:
  "drop i xs = y # ys \<Longrightarrow> i < length xs \<and> xs ! i = y \<and> drop (Suc i) xs = ys"
proof -
  assume a: "drop i xs = y # ys"
  then have i: "i < length xs" by (cases "i < length xs") auto
  then have "xs ! i # drop (Suc i) xs = drop i xs" by (rule Cons_nth_drop_Suc)
  with a i show ?thesis by simp
qed

lemma attemptCalls_append:
  "list_all (callSucceeded fs) cs \<Longrightarrow> attemptCalls fs r ds \<Longrightarrow> attemptCalls fs r (cs @ ds)"
  by (cases r) (auto simp: attemptCalls_def butlast_append)

lemma filterLoop_calls:
  "drop i all = fs \<Longrightarrow> filterLoop i fs p ns tr = (r, tr') \<Longrightarrow>
     \<exists>cs. tr' = tr @ cs \<and> attemptCalls all r cs"
proof (induction fs arbitrary: i ns tr)
  case Nil
  then show ?case by (auto simp: attemptCalls_def)
next
  case (Cons f fs)
  from drop_Cons_nth [OF Cons.prems(1)]
  have i: "i < length all" and f: "all ! i = f" and rest: "drop (Suc i) all = fs" by simp_all
  obtain r1 tr1 where inner: "filterNodes i (all ! i) p ns [] tr = (r1, tr1)"
    by (cases "filterNodes i (all ! i) p ns [] tr")
  from filterNodes_calls [OF i inner] obtain cs where
    cs: "tr1 = tr @ cs" "attemptCalls all r1 cs" by blast
  show ?case
  proof (cases r1)
    case (Inl err)
    with Cons.prems(2) inner f have "r = Inl err" "tr' = tr1" by auto
    with cs Inl show ?thesis by auto
  next
    case (Inr oks)
    with Cons.prems(2) inner f have "filterLoop (Suc i) fs p oks tr1 = (r, tr')" by auto
    from Cons.IH [OF rest this] obtain ds where
      ds: "tr' = tr1 @ ds" "attemptCalls all r ds" by blast
    have "list_all (callSucceeded all) cs" using cs(2) Inr by (simp add: attemptCalls_def)
    then have "attemptCalls all r (cs @ ds)" using ds(2) by (rule attemptCalls_append)
    with cs(1) ds(1) show ?thesis by auto
  qed
qed

lemma filterLoop_presented:
  "drop i all = fs \<Longrightarrow> filterLoop i fs p ns tr = (r, tr') \<Longrightarrow>
     \<exists>cs. tr' = tr @ cs \<and>
       (\<forall>c\<in>set cs. \<exists>j n. c = FilterCall j p n \<and> i \<le> j \<and> j < length all \<and>
          (if j = i then n \<in> set ns else (all ! (j - 1)) p n = Inr True))"
proof (induction fs arbitrary: i ns tr)
  case Nil
  then show ?case by auto
next
  case (Cons f fs)
  define P where "P = (\<lambda>c. \<exists>j n. c = FilterCall j p n \<and> i \<le> j \<and> j < length all \<and>
          (if j = i then n \<in> set ns else (all ! (j - 1)) p n = Inr True))"
  from drop_Cons_nth [OF Cons.prems(1)]
  have i: "i < length all" and f: "all ! i = f" and rest: "drop (Suc i) all = fs" by simp_all
  obtain r1 tr1 where inner: "filterNodes i (all ! i) p ns [] tr = (r1, tr1)"
    by (cases "filterNodes i (all ! i) p ns [] tr")
  from filterNodes_calls [OF i inner] obtain cs where
    cs: "tr1 = tr @ cs" "set cs \<subseteq> FilterCall i p ` set ns" by blast
  have here: "\<forall>c\<in>set cs. P c"
    unfolding P_def using cs(2) i by auto
  show ?case
  proof (cases r1)
    case (Inl err)
    with Cons.prems(2) inner f have "tr' = tr1" by auto
    with cs(1) here show ?thesis unfolding P_def by blast
  next
    case (Inr oks)
    with Cons.prems(2) inner f have loop: "filterLoop (Suc i) fs p oks tr1 = (r, tr')" by auto
    from filterNodes_accepts inner Inr have oks: "oks = filter (\<lambda>n. (all ! i) p n = Inr True) ns"
      by fastforce
    from Cons.IH [OF rest loop] obtain ds where
      ds: "tr' = tr1 @ ds"
      "\<forall>c\<in>set ds. \<exists>j n. c = FilterCall j p n \<and> Suc i \<le> j \<and> j < length all \<and>
          (if j = Suc i then n \<in> set oks else (all ! (j - 1)) p n = Inr True)" by blast
    have later: "\<forall>c\<in>set ds. P c"
    proof
      fix c assume "c \<in> set ds"
      with ds(2) obtain j n where c: "c = FilterCall j p n" "Suc i \<le> j" "j < length all"
        "if j = Suc i then n \<in> set oks else (all ! (j - 1)) p n = Inr True" by blast
      have "(all ! (j - 1)) p n = Inr True"
        using c(4) oks by (cases "j = Suc i") auto
      with c show "P c" unfolding P_def by auto
    qed
    have "tr' = tr @ (cs @ ds)" using cs(1) ds(1) by simp
    moreover have "\<forall>c\<in>set (cs @ ds). P c" using here later by auto
    ultimately show ?thesis unfolding P_def by blast
  qed
qed

lemma filterLoop_append:
  "filterLoop i (fs @ gs) p ns tr =
     (case filterLoop i fs p ns tr of
        (Inl err, tr') \<Rightarrow> (Inl err, tr')
      | (Inr ns', tr') \<Rightarrow> filterLoop (i + length fs) gs p ns' tr')"
proof (induction fs arbitrary: i ns tr)
  case Nil
  then show ?case by simp
next
  case (Cons f fs)
  show ?case
  proof (cases "filterNodes i f p ns [] tr")
    case (Pair r1 tr1)
    then show ?thesis by (cases r1) (simp_all add: Cons.IH split: prod.splits sum.splits)
  qed
qed

section \<open>Selection in scheduleOneScore\<close>

lemma scoreLoop_trace:
  "\<exists>cs. snd (scoreLoop i ss p ns m tr) = tr @ cs \<and> (\<forall>c\<in>set cs. \<exists>j. c = ScoreCall j p ns)"
proof (induction ss arbitrary: i m tr)
  case Nil
  then show ?case by simp
next
  case (Cons s ss)
  show ?case
  proof (cases "s p ns")
    case (Inl err)
    then show ?thesis by (simp add: callScore_def)
  next
    case (Inr a)
    obtain scores weight where a: "a = (scores, weight)" by (cases a)
    from Cons.IH [of "Suc i" "addScores weight m scores" "tr @ [ScoreCall i p ns]"]
    obtain cs where cs: "snd (scoreLoop (Suc i) ss p ns (addScores weight m scores) (tr @ [ScoreCall i p ns]))
        = (tr @ [ScoreCall i p ns]) @ cs" "\<forall>c\<in>set cs. \<exists>j. c = ScoreCall j p ns" by blast
    have "snd (scoreLoop i (s # ss) p ns m tr) = tr @ (ScoreCall i p ns # cs)"
      using cs(1) Inr a by (simp add: callScore_def)
    moreover have "\<forall>c\<in>set (ScoreCall i p ns # cs). \<exists>j. c = ScoreCall j p ns"
      using cs(2) by simp
    ultimately show ?thesis by blast
  qed
qed

lemma scheduleOneScore_unique_max:
  assumes answers: "map (\<lambda>s. s p ns) (scorers k) = map Inr answers"
      and h: "h \<in> set (scoredHosts answers)"
      and pos: "- 1 <s weightedTotal answers h"
      and max: "\<forall>h'\<in>set (scoredHosts answers). h' \<noteq> h \<longrightarrow> weightedTotal answers h' <s weightedTotal answers h"
  shows "scheduleOneScore k p ns ord =
    ((case map_of (nodes k) h of None \<Rightarrow> Inl (NotFound h)
       | Some n \<Rightarrow> Inr (h, n, p\<lparr>nodeName := h\<rparr>)),
     k\<lparr>trace := trace k @ map (\<lambda>j. ScoreCall j p ns) [0..<length (scorers k)]\<rparr>)"
proof -
  define m where "m = accumulate [] answers"
  define t where "t = weightedTotal answers h"
  have loop: "scoreLoop 0 (scorers k) p ns [] (trace k) =
      (Inr m, trace k @ map (\<lambda>j. ScoreCall j p ns) [0..<length (scorers k)])"
    using scoreLoop_answers [OF answers, of 0 "[]" "trace k"] by (simp add: m_def)
  have all: "\<forall>e\<in>set (mapRange ord m). e = (h, t) \<or> snd e <s t"
  proof
    fix e assume "e \<in> set (mapRange ord m)"
    then have e: "e \<in> set m" by (simp add: set_mapRange)
    obtain h' t' where e': "e = (h', t')" by (cases e)
    with e entries_accumulate [of h' t' answers]
    have "h' \<in> set (scoredHosts answers)" "t' = weightedTotal answers h'" by (simp_all add: m_def)
    with max e' show "e = (h, t) \<or> snd e <s t" by (cases "h' = h") (auto simp: t_def)
  qed
  have "(h, t) \<in> set (mapRange ord m)"
    using entry_accumulate [OF h] by (simp add: set_mapRange m_def t_def)
  with pos have "('''', - 1 :: go_int) = (h, t) \<or> (snd ('''', - 1 :: go_int) <s t \<and> (h, t) \<in> set (mapRange ord m))"
    by (simp add: t_def)
  with all have "scoreMaxLoop (mapRange ord m) ('''', - 1) = (h, t)"
    by (rule scoreMaxLoop_unique)
  with loop show ?thesis
    by (simp add: scheduleOneScore_def split: option.splits)
qed

lemma scheduleOneScore_none_selectable:
  assumes loop: "scoreLoop 0 (scorers k) p ns [] (trace k) = (Inr m, tr)"
      and low: "\<forall>e\<in>set m. snd e \<le>s - 1"
      and reg: "map_of (nodes k) '''' = None"
  shows "scheduleOneScore k p ns ord = (Inl (NotFound ''''), k\<lparr>trace := tr\<rparr>)"
proof -
  have "\<forall>e\<in>set (mapRange ord m). \<not> (snd ('''', - 1 :: go_int) <s snd e)"
    using low by (auto simp: set_mapRange signed.not_less)
  then have "scoreMaxLoop (mapRange ord m) ('''', - 1) = ('''', - 1)"
    by (rule scoreMaxLoop_keep)
  with loop reg show ?thesis by (simp add: scheduleOneScore_def)
qed

lemma accumulate_no_scores:
  "list_all (\<lambda>a. fst a = []) answers \<Longrightarrow> accumulate m answers = m"
  by (induction m answers rule: accumulate.induct) auto

section \<open>Steps of the pipeline\<close>

lemma submit_fields:
  "submit k clk ns = (r, k1) \<Longrightarrow>
     nodes k1 = nodes k \<and> tick k1 = tick k \<and> submitters k1 = submitters k
     \<and> filters k1 = filters k \<and> scorers k1 = scorers k"
  by (auto simp: submit_def split: prod.splits)

lemma scheduleOneFilter_fields:
  "scheduleOneFilter k p ns = (r, k1) \<Longrightarrow>
     nodes k1 = nodes k \<and> pods k1 = pods k \<and> tick k1 = tick k \<and> submitters k1 = submitters k
     \<and> filters k1 = filters k \<and> scorers k1 = scorers k"
  by (auto simp: scheduleOneFilter_def split: prod.splits sum.splits)

lemma answers_without_scores:
  "list_all (\<lambda>s. case s p ns of Inr ([], w) \<Rightarrow> True | _ \<Rightarrow> False) ss \<Longrightarrow>
     \<exists>answers. map (\<lambda>s. s p ns) ss = map Inr answers \<and> list_all (\<lambda>a. fst a = []) answers"
proof (induction ss)
  case Nil
  then show ?case by simp
next
  case (Cons s ss)
  then obtain answers where
    answers: "map (\<lambda>s. s p ns) ss = map Inr answers" "list_all (\<lambda>a. fst a = []) answers"
    by auto
  from Cons.prems obtain w where "s p ns = Inr ([], w)"
    by (auto split: sum.splits prod.splits list.splits)
  with answers have "map (\<lambda>s. s p ns) (s # ss) = map Inr (([], w) # answers)
      \<and> list_all (\<lambda>a. fst a = []) (([], w) # answers)" by simp
  then show ?case by blast
qed

lemma scheduleOneScore_no_scores:
  assumes "list_all (\<lambda>s. case s p ns of Inr ([], w) \<Rightarrow> True | _ \<Rightarrow> False) (scorers k)"
      and "map_of (nodes k) '''' = None"
  shows "fst (scheduleOneScore k p ns ord) = Inl (NotFound '''')"
proof -
  from answers_without_scores [OF assms(1)] obtain answers where
    answers: "map (\<lambda>s. s p ns) (scorers k) = map Inr answers" "list_all (\<lambda>a. fst a = []) answers"
    by blast
  have "accumulate [] answers = []" using answers(2) by (rule accumulate_no_scores)
  with scoreLoop_answers [OF answers(1), of 0 "[]" "trace k"]
  have "scoreLoop 0 (scorers k) p ns [] (trace k) =
      (Inr [], trace k @ map (\<lambda>j. ScoreCall j p ns) [0..<length (scorers k)])" by simp
  from scheduleOneScore_none_selectable [OF this _ assms(2)] show ?thesis by simp
qed

lemma scheduleOneScore_low_totals:
  assumes answers: "map (\<lambda>s. s p ns) (scorers k) = map Inr answers"
      and low: "list_all (\<lambda>h. weightedTotal answers h \<le>s - 1) (scoredHosts answers)"
      and reg: "map_of (nodes k) '''' = None"
  shows "fst (scheduleOneScore k p ns ord) = Inl (NotFound '''')"
proof -
  have loop: "scoreLoop 0 (scorers k) p ns [] (trace k) =
      (Inr (accumulate [] answers), trace k @ map (\<lambda>j. ScoreCall j p ns) [0..<length (scorers k)])"
    using scoreLoop_answers [OF answers, of 0 "[]" "trace k"] by simp
  have "\<forall>e\<in>set (accumulate [] answers). snd e \<le>s - 1"
  proof
    fix e assume e: "e \<in> set (accumulate [] answers)"
    obtain h t where "e = (h, t)" by (cases e)
    with e entries_accumulate [of h t answers] low show "snd e \<le>s - 1"
      by (auto simp: list_all_iff)
  qed
  from scheduleOneScore_none_selectable [OF loop this reg] show ?thesis by simp
qed

lemma scheduleOne_score_error:
  assumes "pop (pods k) = (Inr p, q)"
      and "scheduleOneFilter (k\<lparr>pods := q\<rparr>) p ns = (None, k1)"
      and "fst (scheduleOneScore k1 p ns ord) = Inl err"
  shows "fst (scheduleOne k clk ns ord) = Some err"
  using assms by (cases "scheduleOneScore k1 p ns ord") (simp add: scheduleOne_def)

lemma Run_scheduleOne_error:
  assumes "submit k (clock_Add clk (tick k * time_Second)) (snapshot k ordNodes) = (None, k1)"
      and "fst (scheduleOne k1 (clock_Add clk (tick k * time_Second)) (snapshot k ordNodes) ord) = Some err"
  shows "Run k clk (Tick ordNodes ord # evs)
     = (Some err, snd (scheduleOne k1 (clock_Add clk (tick k * time_Second)) (snapshot k ordNodes) ord))"
  using assms
  by (cases "scheduleOne k1 (clock_Add clk (tick k * time_Second)) (snapshot k ordNodes) ord")
     (simp add: Let_def)

lemma scheduleOneScore_trace:
  assumes "scheduleOneScore k p ns ord = (r, k2)"
  shows "\<exists>scs. trace k2 = trace k @ scs \<and> (\<forall>c\<in>set scs. filterCallResult fs c = None)
     \<and> nodes k2 = nodes k"
proof -
  obtain r1 tr1 where loop: "scoreLoop 0 (scorers k) p ns [] (trace k) = (r1, tr1)"
    by (cases "scoreLoop 0 (scorers k) p ns [] (trace k)")
  from scoreLoop_trace [of 0 "scorers k" p ns "[]" "trace k"] loop
  obtain scs where scs: "tr1 = trace k @ scs" "\<forall>c\<in>set scs. \<exists>j. c = ScoreCall j p ns" by auto
  have none: "\<forall>c\<in>set scs. filterCallResult fs c = None" using scs(2) by auto
  have "trace k2 = tr1 \<and> nodes k2 = nodes k"
    using assms loop
    by (cases r1) (auto simp: scheduleOneScore_def split: prod.splits option.splits)
  with scs(1) none show ?thesis by blast
qed

lemma scheduleOne_after_filter_error:
  assumes "pop (pods k) = (Inr p, q)"
      and "filterLoop 0 (filters k) p ns (trace k) = (Inl e, tr1)"
  shows "scheduleOne k clk ns ord = (Some e, k\<lparr>pods := q, trace := tr1\<rparr>)"
  using assms by (simp add: scheduleOne_def scheduleOneFilter_def)

lemma scheduleOne_after_filter_ok:
  assumes popped: "pop (pods k) = (Inr p, q)"
      and loop: "filterLoop 0 (filters k) p ns (trace k) = (Inr oks, tr1)"
      and run: "scheduleOne k clk ns ord = (res, k')"
  shows "\<exists>rest. trace k' = tr1 @ rest \<and> (\<forall>c\<in>set rest. filterCallResult fs c = None)"
proof -
  define k1 where "k1 = k\<lparr>pods := q, trace := tr1\<rparr>"
  have filt: "scheduleOneFilter (k\<lparr>pods := q\<rparr>) p ns = (None, k1)"
    using loop by (simp add: scheduleOneFilter_def k1_def)
  obtain r2 k2 where score: "scheduleOneScore k1 p ns ord = (r2, k2)"
    by (cases "scheduleOneScore k1 p ns ord")
  from scheduleOneScore_trace [OF score, of fs] obtain scs where
    scs: "trace k2 = trace k1 @ scs" "\<forall>c\<in>set scs. filterCallResult fs c = None" by blast
  have tr1: "trace k1 = tr1" by (simp add: k1_def)
  show ?thesis
  proof (cases r2)
    case (Inl err)
    with run popped filt score have "k' = k2" by (simp add: scheduleOne_def)
    with scs tr1 show ?thesis by auto
  next
    case (Inr sel)
    obtain key n p' where sel: "sel = (key, n, p')" by (cases sel)
    have "trace k' = trace k2 @ [CreatePodCall key clk p']"
      using run popped filt score Inr sel
      by (auto simp: scheduleOne_def callCreatePod_def split: sum.splits)
    then have "trace k' = tr1 @ (scs @ [CreatePodCall key clk p'])"
      using scs(1) tr1 by simp
    moreover have "\<forall>c\<in>set (scs @ [CreatePodCall key clk p']). filterCallResult fs c = None"
      using scs(2) by simp
    ultimately show ?thesis by blast
  qed
qed

section \<open>submit and the tick\<close>

lemma appendAll_append: "appendAll q ps = q @ ps"
  by (induction ps arbitrary: q) (simp_all add: append_pod_def)

lemma upt_from: "[i..<Suc (i + n)] = i # [Suc i..<Suc (i + n)]"
  by (rule upt_conv_Cons) simp

lemma submitLoop_all_ok:
  "map (\<lambda>s. s clk ns) ss = map Inr outs \<Longrightarrow>
   submitLoop i ss clk ns q tr =
     (None, q @ concat outs, tr @ map (\<lambda>j. SubmitCall j clk ns) [i..<i + length ss])"
proof (induction ss arbitrary: i q tr outs)
  case Nil
  then show ?case by simp
next
  case (Cons s ss)
  then obtain ps rest where outs: "outs = ps # rest" "s clk ns = Inr ps"
    "map (\<lambda>s. s clk ns) ss = map Inr rest" by (cases outs) auto
  show ?case
    using Cons.IH [OF outs(3)] outs(2)
    by (simp add: callSubmit_def outs(1) appendAll_append upt_from del: upt_Suc)
qed

lemma submitLoop_first_error:
  "map (\<lambda>s. s clk ns) pre = map Inr outs \<Longrightarrow> s clk ns = Inl err \<Longrightarrow>
   submitLoop i (pre @ s # post) clk ns q tr =
     (Some err, q @ concat outs, tr @ map (\<lambda>j. SubmitCall j clk ns) [i..<Suc (i + length pre)])"
proof (induction pre arbitrary: i q tr outs)
  case Nil
  then show ?case by (simp add: callSubmit_def)
next
  case (Cons s' pre)
  then obtain ps rest where outs: "outs = ps # rest" "s' clk ns = Inr ps"
    "map (\<lambda>s. s clk ns) pre = map Inr rest" by (cases outs) auto
  have range: "[i..<Suc (i + length (s' # pre))] = i # [Suc i..<Suc (Suc i + length pre)]"
    using upt_from [of i "length (s' # pre)"] by simp
  show ?case
    using Cons.IH [OF outs(3) Cons.prems(2), of "Suc i"] outs(2)
    by (simp only: range) (simp add: callSubmit_def outs(1) appendAll_append del: upt_Suc)
qed

lemma submitLoop_trace:
  "\<exists>n. snd (snd (submitLoop i ss clk ns q tr)) = tr @ map (\<lambda>j. SubmitCall j clk ns) [i..<i + n]"
proof (induction ss arbitrary: i q tr)
  case Nil
  have "snd (snd (submitLoop i [] clk ns q tr)) = tr @ map (\<lambda>j. SubmitCall j clk ns) [i..<i + 0]"
    by simp
  then show ?case by blast
next
  case (Cons s ss)
  show ?case
  proof (cases "s clk ns")
    case (Inl err)
    then have "snd (snd (submitLoop i (s # ss) clk ns q tr))
        = tr @ map (\<lambda>j. SubmitCall j clk ns) [i..<i + 1]"
      by (simp add: callSubmit_def)
    then show ?thesis by blast
  next
    case (Inr ps)
    from Cons.IH [of "Suc i" "appendAll q ps" "tr @ [SubmitCall i clk ns]"] obtain n where
      "snd (snd (submitLoop (Suc i) ss clk ns (appendAll q ps) (tr @ [SubmitCall i clk ns])))
        = (tr @ [SubmitCall i clk ns]) @ map (\<lambda>j. SubmitCall j clk ns) [Suc i..<Suc i + n]"
      by blast
    then have "snd (snd (submitLoop i (s # ss) clk ns q tr))
        = tr @ map (\<lambda>j. SubmitCall j clk ns) [i..<i + Suc n]"
      using Inr by (simp add: callSubmit_def upt_from del: upt_Suc)
    then show ?thesis by blast
  qed
qed

lemma scheduleOne_empty_queue: "pods k = [] \<Longrightarrow> scheduleOne k clk ns ord = (None, k)"
  by (simp add: scheduleOne_def)

lemma Run_tick_continues:
  assumes "submit k (clock_Add clk (tick k * time_Second)) (snapshot k ordNodes) = (None, k1)"
      and "scheduleOne k1 (clock_Add clk (tick k * time_Second)) (snapshot k ordNodes) ord = (None, k2)"
  shows "Run k clk (Tick ordNodes ord # evs) = Run k2 (clock_Add clk (tick k * time_Second)) evs"
  using assms by (simp add: Let_def)

lemma Run_submit_error:
  assumes "submit k (clock_Add clk (tick k * time_Second)) (snapshot k ordNodes) = (Some err, k1)"
  shows "Run k clk (Tick ordNodes ord # evs) = (Some err, k1)"
  using assms by (simp add: Let_def)

section \<open>Capacity\<close>

lemma qty_absent: "kind \<notin> fst ` set m \<Longrightarrow> qty m kind = 0"
  by (simp add: qty_def map_of_eq_None_iff [THEN iffD2])

lemma withinCapacity_iff:
  "withinCapacity n \<longleftrightarrow> (\<forall>kind. qty (allocation n) kind \<le> qty (capacity n) kind)"
proof
  assume w: "withinCapacity n"
  show "\<forall>kind. qty (allocation n) kind \<le> qty (capacity n) kind"
  proof
    fix kind
    show "qty (allocation n) kind \<le> qty (capacity n) kind"
    proof (cases "kind \<in> fst ` set (allocation n)")
      case True
      with w show ?thesis by (auto simp: withinCapacity_def list_all_iff)
    next
      case False
      then show ?thesis by (simp add: qty_absent)
    qed
  qed
next
  assume "\<forall>kind. qty (allocation n) kind \<le> qty (capacity n) kind"
  then show "withinCapacity n" by (simp add: withinCapacity_def list_all_iff)
qed

lemma map_of_fold_update:
  "map_of (fold (\<lambda>kind a. AList.update kind (g kind) a) ks al) kind =
     (if kind \<in> set ks then Some (g kind) else map_of al kind)"
  by (induction ks arbitrary: al) (auto simp: update_conv')

lemma qty_allocate:
  "qty (allocate alloc req) kind = qty alloc kind + qty req kind"
proof (cases "kind \<in> fst ` set req")
  case True
  then show ?thesis by (simp add: allocate_def qty_def [of "fold _ _ _"] map_of_fold_update)
next
  case False
  then have "qty req kind = 0" by (rule qty_absent)
  with False show ?thesis by (simp add: allocate_def qty_def [of "fold _ _ _"] qty_def [of alloc] map_of_fold_update)
qed

lemma CreatePod_accepts:
  assumes "CreatePod n clk p = Inr n'"
  shows "fits n p \<and> n' = n\<lparr>allocation := allocate (allocation n) (requests p)\<rparr>"
  using assms by (auto simp: CreatePod_def split: if_splits)

lemma CreatePod_within:
  assumes within: "withinCapacity n" and bound: "CreatePod n clk p = Inr n'"
  shows "withinCapacity n'"
proof -
  from CreatePod_accepts [OF bound] have fits: "fits n p"
    and n': "n' = n\<lparr>allocation := allocate (allocation n) (requests p)\<rparr>" by simp_all
  have "qty (allocation n') kind \<le> qty (capacity n') kind" for kind
  proof (cases "kind \<in> fst ` set (requests p)")
    case True
    with fits have "qty (allocation n) kind + qty (requests p) kind \<le> qty (capacity n) kind"
      by (auto simp: fits_def list_all_iff)
    then show ?thesis by (simp add: n' qty_allocate)
  next
    case False
    then have "qty (requests p) kind = 0" by (rule qty_absent)
    moreover have "qty (allocation n) kind \<le> qty (capacity n) kind"
      using within by (simp add: withinCapacity_iff)
    ultimately show ?thesis by (simp add: n' qty_allocate)
  qed
  then show ?thesis by (simp add: withinCapacity_iff)
qed

lemma list_all_update:
  "list_all P al \<Longrightarrow> P (key, v) \<Longrightarrow> list_all P (AList.update key v al)"
  by (induction al) auto

lemma scheduleOneScore_selected:
  assumes "scheduleOneScore k p ns ord = (Inr (key, n, p'), k2)"
  shows "map_of (nodes k) key = Some n \<and> nodes k2 = nodes k"
  using assms
  by (auto simp: scheduleOneScore_def split: prod.splits sum.splits option.splits)

lemma scheduleOne_nodes:
  "nodes (snd (scheduleOne k clk ns ord)) = nodes k
   \<or> (\<exists>key n p' n'. map_of (nodes k) key = Some n \<and> CreatePod n clk p' = Inr n'
         \<and> fst (scheduleOne k clk ns ord) = None
         \<and> nodes (snd (scheduleOne k clk ns ord)) = AList.update key n' (nodes k))"
proof (cases "pop (pods k)")
  case (Pair r q)
  show ?thesis
  proof (cases r)
    case (Inl err)
    with Pair show ?thesis by (simp add: scheduleOne_def)
  next
    case (Inr p)
    obtain r1 k1 where filt: "scheduleOneFilter (k\<lparr>pods := q\<rparr>) p ns = (r1, k1)"
      by (cases "scheduleOneFilter (k\<lparr>pods := q\<rparr>) p ns")
    from scheduleOneFilter_fields [OF filt] have n1: "nodes k1 = nodes k" by simp
    show ?thesis
    proof (cases r1)
      case (Some err)
      with Pair Inr filt n1 show ?thesis by (simp add: scheduleOne_def)
    next
      case None
      obtain r2 k2 where score: "scheduleOneScore k1 p ns ord = (r2, k2)"
        by (cases "scheduleOneScore k1 p ns ord")
      from scheduleOneScore_trace [OF score, of "[]"] have n2: "nodes k2 = nodes k"
        using n1 by auto
      show ?thesis
      proof (cases r2)
        case (Inl err)
        with Pair Inr filt None score n2 show ?thesis by (simp add: scheduleOne_def)
      next
        case sel: (Inr sel)
        obtain key n p' where sel': "sel = (key, n, p')" by (cases sel)
        from scheduleOneScore_selected [OF score [unfolded sel sel']] n1
        have reg: "map_of (nodes k) key = Some n" by simp
        show ?thesis
        proof (cases "CreatePod n clk p'")
          case (Inl err)
          with Pair Inr filt None score sel sel' n2 show ?thesis
            by (simp add: scheduleOne_def callCreatePod_def)
        next
          case bound: (Inr n')
          with Pair Inr filt None score sel sel' n2
          have "fst (scheduleOne k clk ns ord) = None"
            "nodes (snd (scheduleOne k clk ns ord)) = AList.update key n' (nodes k)"
            by (simp_all add: scheduleOne_def callCreatePod_def)
          with reg bound show ?thesis by blast
        qed
      qed
    qed
  qed
qed

lemma scheduleOne_error_keeps_nodes:
  "fst (scheduleOne k clk ns ord) = Some err \<Longrightarrow> nodes (snd (scheduleOne k clk ns ord)) = nodes k"
  using scheduleOne_nodes [of k clk ns ord] by auto

lemma scheduleOne_invariant:
  assumes "capacityInvariant k"
  shows "capacityInvariant (snd (scheduleOne k clk ns ord))"
proof -
  from scheduleOne_nodes [of k clk ns ord] show ?thesis
  proof
    assume "nodes (snd (scheduleOne k clk ns ord)) = nodes k"
    with assms show ?thesis by (simp add: capacityInvariant_def)
  next
    assume "\<exists>key n p' n'. map_of (nodes k) key = Some n \<and> CreatePod n clk p' = Inr n'
         \<and> fst (scheduleOne k clk ns ord) = None
         \<and> nodes (snd (scheduleOne k clk ns ord)) = AList.update key n' (nodes k)"
    then obtain key n p' n' where sel: "map_of (nodes k) key = Some n"
      and bound: "CreatePod n clk p' = Inr n'"
      and upd: "nodes (snd (scheduleOne k clk ns ord)) = AList.update key n' (nodes k)" by blast
    from sel have "(key, n) \<in> set (nodes k)" by (rule map_of_SomeD)
    with assms have "withinCapacity n" by (auto simp: capacityInvariant_def list_all_iff)
    then have "withinCapacity n'" using bound by (rule CreatePod_within)
    with assms show ?thesis
      unfolding capacityInvariant_def upd by (intro list_all_update) simp_all
  qed
qed

lemma submit_invariant:
  "capacityInvariant k \<Longrightarrow> capacityInvariant (snd (submit k clk ns))"
  using submit_fields [of k clk ns "fst (submit k clk ns)" "snd (submit k clk ns)"]
  by (simp add: capacityInvariant_def)

lemma Run_invariant:
  "capacityInvariant k \<Longrightarrow> capacityInvariant (snd (Run k clk evs))"
proof (induction k clk evs rule: Run.induct)
  case (1 k clk)
  then show ?case by simp
next
  case (2 k clk err evs)
  then show ?case by simp
next
  case (3 k clk ordNodes ordScore evs)
  define clk' where "clk' = clock_Add clk (tick k * time_Second)"
  define ns where "ns = snapshot k ordNodes"
  obtain r1 k1 where sub: "submit k clk' ns = (r1, k1)" by (cases "submit k clk' ns")
  have inv1: "capacityInvariant k1"
    using submit_invariant [OF "3.prems", of clk' ns] sub by simp
  show ?case
  proof (cases r1)
    case (Some err)
    with sub inv1 show ?thesis by (simp add: Let_def clk'_def ns_def)
  next
    case None
    obtain r2 k2 where sched: "scheduleOne k1 clk' ns ordScore = (r2, k2)"
      by (cases "scheduleOne k1 clk' ns ordScore")
    have inv2: "capacityInvariant k2"
      using scheduleOne_invariant [OF inv1, of clk' ns ordScore] sched by simp
    show ?thesis
    proof (cases r2)
      case (Some err)
      with sub None sched inv2 show ?thesis by (simp add: Let_def clk'_def ns_def)
    next
      case none2: None
      from "3.IH" [OF clk'_def ns_def sub [symmetric] None sched [symmetric] none2 inv2]
      show ?thesis using sub None sched none2 by (simp add: Let_def clk'_def ns_def)
    qed
  qed
qed

section \<open>Attempts without candidate nodes\<close>

lemma mapRange_Nil: "mapRange cs [] = []"
  by (cases cs) simp_all

lemma snapshot_no_nodes: "nodes k = [] \<Longrightarrow> snapshot k ordNodes = []"
  by (simp add: snapshot_def mapRange_Nil)

lemma filterLoop_no_nodes: "filterLoop i fs p [] tr = (Inr [], tr)"
  by (induction fs arbitrary: i) simp_all

lemma scheduleOneFilter_no_nodes: "scheduleOneFilter k p [] = (None, k)"
  by (simp add: scheduleOneFilter_def filterLoop_no_nodes)

lemma scheduleOneScore_empty_registry:
  assumes reg: "nodes k = []"
      and answers: "map (\<lambda>s. s p ns) (scorers k) = map Inr answers"
  shows "\<exists>h. scheduleOneScore k p ns ord =
            (Inl (NotFound h),
             k\<lparr>trace := trace k @ map (\<lambda>j. ScoreCall j p ns) [0..<length (scorers k)]\<rparr>)
          \<and> (list_all (\<lambda>a. fst a = []) answers \<longrightarrow> h = '''')"
proof -
  define m where "m = accumulate [] answers"
  define sel where "sel = scoreMaxLoop (mapRange ord m) ('''', - 1)"
  have loop: "scoreLoop 0 (scorers k) p ns [] (trace k) =
      (Inr m, trace k @ map (\<lambda>j. ScoreCall j p ns) [0..<length (scorers k)])"
    using scoreLoop_answers [OF answers, of 0 "[]" "trace k"] by (simp add: m_def)
  have result: "scheduleOneScore k p ns ord =
      (Inl (NotFound (fst sel)),
       k\<lparr>trace := trace k @ map (\<lambda>j. ScoreCall j p ns) [0..<length (scorers k)]\<rparr>)"
    using loop reg by (cases sel) (simp add: scheduleOneScore_def sel_def [symmetric])
  have "fst sel = ''''" if "list_all (\<lambda>a. fst a = []) answers"
  proof -
    from that have "m = []" unfolding m_def by (rule accumulate_no_scores)
    then show ?thesis by (simp add: sel_def mapRange_Nil)
  qed
  with result show ?thesis by blast
qed

lemma scheduleOne_empty_registry:
  assumes reg: "nodes k = []"
      and popped: "pop (pods k) = (Inr p, q)"
      and answers: "map (\<lambda>s. s p []) (scorers k) = map Inr answers"
  shows "\<exists>h. scheduleOne k clk [] ord =
            (Some (NotFound h),
             k\<lparr>pods := q, trace := trace k @ map (\<lambda>j. ScoreCall j p []) [0..<length (scorers k)]\<rparr>)
          \<and> (list_all (\<lambda>a. fst a = []) answers \<longrightarrow> h = '''')"
proof -
  have "nodes (k\<lparr>pods := q\<rparr>) = []" "scorers (k\<lparr>pods := q\<rparr>) = scorers k"
    using reg by simp_all
  with answers have "map (\<lambda>s. s p []) (scorers (k\<lparr>pods := q\<rparr>)) = map Inr answers" by simp
  from scheduleOneScore_empty_registry [OF \<open>nodes (k\<lparr>pods := q\<rparr>) = []\<close> this, of ord]
  obtain h where h: "scheduleOneScore (k\<lparr>pods := q\<rparr>) p [] ord =
            (Inl (NotFound h),
             k\<lparr>pods := q, trace := trace k @ map (\<lambda>j. ScoreCall j p []) [0..<length (scorers k)]\<rparr>)"
      "list_all (\<lambda>a. fst a = []) answers \<longrightarrow> h = ''''" by auto
  have "scheduleOne k clk [] ord =
            (Some (NotFound h),
             k\<lparr>pods := q, trace := trace k @ map (\<lambda>j. ScoreCall j p []) [0..<length (scorers k)]\<rparr>)"
    using popped h(1) by (simp add: scheduleOne_def scheduleOneFilter_no_nodes)
  with h(2) show ?thesis by blast
qed

lemma scheduleOneScore_score_calls:
  assumes "scheduleOneScore k p ns ord = (r, k2)"
  shows "\<exists>scs. trace k2 = trace k @ scs \<and> list_all (\<lambda>c. \<not> isSubmitCall c) scs"
proof -
  obtain r1 tr1 where loop: "scoreLoop 0 (scorers k) p ns [] (trace k) = (r1, tr1)"
    by (cases "scoreLoop 0 (scorers k) p ns [] (trace k)")
  from scoreLoop_trace [of 0 "scorers k" p ns "[]" "trace k"] loop
  obtain scs where scs: "tr1 = trace k @ scs" "\<forall>c\<in>set scs. \<exists>j. c = ScoreCall j p ns" by auto
  have none: "list_all (\<lambda>c. \<not> isSubmitCall c) scs" using scs(2) by (auto simp: list_all_iff)
  have "trace k2 = tr1"
    using assms loop
    by (cases r1) (auto simp: scheduleOneScore_def split: prod.splits option.splits)
  with scs(1) none show ?thesis by blast
qed


lemma scheduleOne_no_submit_calls:
  "\<exists>cs. trace (snd (scheduleOne k clk ns ord)) = trace k @ cs
        \<and> list_all (\<lambda>c. \<not> isSubmitCall c) cs"
proof (cases "pop (pods k)")
  case (Pair r q)
  show ?thesis
  proof (cases r)
    case (Inl err)
    with Pair have "trace (snd (scheduleOne k clk ns ord)) = trace k @ []"
      by (simp add: scheduleOne_def)
    moreover have "list_all (\<lambda>c. \<not> isSubmitCall c) []" by simp
    ultimately show ?thesis by blast
  next
    case (Inr p)
    obtain r1 tr1 where loop: "filterLoop 0 (filters k) p ns (trace k) = (r1, tr1)"
      by (cases "filterLoop 0 (filters k) p ns (trace k)")
    have "drop 0 (filters k) = filters k" by simp
    from filterLoop_presented [OF this loop] obtain fcs where
      fcs: "tr1 = trace k @ fcs"
      and full: "\<forall>c\<in>set fcs. \<exists>j n. c = FilterCall j p n \<and> 0 \<le> j \<and> j < length (filters k) \<and>
          (if j = 0 then n \<in> set ns else (filters k ! (j - 1)) p n = Inr True)" by blast
    have nofcs: "list_all (\<lambda>c. \<not> isSubmitCall c) fcs"
      unfolding list_all_iff
    proof
      fix c assume "c \<in> set fcs"
      with full obtain j n where "c = FilterCall j p n" by blast
      then show "\<not> isSubmitCall c" by simp
    qed
    show ?thesis
    proof (cases r1)
      case (Inl e)
      from scheduleOne_after_filter_error [OF Pair [unfolded Inr] loop [unfolded Inl], of clk ord]
      have "trace (snd (scheduleOne k clk ns ord)) = trace k @ fcs" using fcs(1) by simp
      with nofcs show ?thesis by blast
    next
      case oks: (Inr oks)
      define k1 where "k1 = k\<lparr>pods := q, trace := tr1\<rparr>"
      have filt: "scheduleOneFilter (k\<lparr>pods := q\<rparr>) p ns = (None, k1)"
        using loop oks by (simp add: scheduleOneFilter_def k1_def)
      obtain r2 k2 where score: "scheduleOneScore k1 p ns ord = (r2, k2)"
        by (cases "scheduleOneScore k1 p ns ord")
      from scheduleOneScore_score_calls [OF score] obtain scs where
        scs: "trace k2 = trace k1 @ scs" and noscs: "list_all (\<lambda>c. \<not> isSubmitCall c) scs"
        by blast
      have tr2: "trace k2 = trace k @ (fcs @ scs)"
        using scs fcs by (simp add: k1_def)
      show ?thesis
      proof (cases r2)
        case (Inl err)
        with Pair Inr filt score have "snd (scheduleOne k clk ns ord) = k2"
          by (simp add: scheduleOne_def)
        with tr2 have "trace (snd (scheduleOne k clk ns ord)) = trace k @ (fcs @ scs)" by simp
        moreover have "list_all (\<lambda>c. \<not> isSubmitCall c) (fcs @ scs)"
          using nofcs noscs by simp
        ultimately show ?thesis by blast
      next
        case sel: (Inr sel)
        obtain key n p' where sel': "sel = (key, n, p')" by (cases sel)
        have "trace (snd (scheduleOne k clk ns ord)) = trace k2 @ [CreatePodCall key clk p']"
          using Pair Inr filt score sel sel'
          by (auto simp: scheduleOne_def callCreatePod_def split: sum.splits)
        then have "trace (snd (scheduleOne k clk ns ord))
            = trace k @ (fcs @ scs @ [CreatePodCall key clk p'])"
          using tr2 by simp
        moreover have "list_all (\<lambda>c. \<not> isSubmitCall c) (fcs @ scs @ [CreatePodCall key clk p'])"
          using nofcs noscs by simp
        ultimately show ?thesis by blast
      qed
    qed
  qed
qed

lemma Run_tick_unfold:
  assumes "submit k (clock_Add clk (tick k * time_Second)) (snapshot k ordNodes) = (None, k1)"
  shows "Run k clk (Tick ordNodes ord # evs) =
     (case scheduleOne k1 (clock_Add clk (tick k * time_Second)) (snapshot k ordNodes) ord of
        (Some e, k2) \<Rightarrow> (Some e, k2)
      | (None, k2) \<Rightarrow> Run k2 (clock_Add clk (tick k * time_Second)) evs)"
  using assms by (simp add: Let_def split: prod.splits option.splits)

section \<open>Claims\<close>

text \<open>
  C1. The claim: the scorers receive exactly the nodes that survived all filters, so a node
  removed by a filter is never selected or bound. The code computes the filtered list
  inside \<open>scheduleOneFilter\<close> and drops it; \<open>scheduleOne\<close> hands the unfiltered
  snapshot to the scorers. In the cluster \<open>simAB\<close> the only filter rejects node B (the
  filter loop keeps A alone), yet for every iteration order the scorer is called with both
  A and B, B is selected, and the pod is bound to B.
\<close>

theorem scheduleOne_binds_filtered_out_node:
  "fst (filterLoop 0 (filters simAB) (exPod ''w'' 1) (snapshot simAB []) []) = Inr [exNode ''A'' 4]
   \<and> scheduleOne simAB 0 (snapshot simAB []) ord =
      (None, simAB\<lparr>nodes := [(''A'', exNode ''A'' 4),
                              (''B'', (exNode ''B'' 4)\<lparr>allocation := [(''cpu'', 1)]\<rparr>)],
         pods := [],
         trace := [FilterCall 0 (exPod ''w'' 1) (exNode ''A'' 4),
                   FilterCall 0 (exPod ''w'' 1) (exNode ''B'' 4),
                   ScoreCall 0 (exPod ''w'' 1) [exNode ''A'' 4, exNode ''B'' 4],
                   CreatePodCall ''B'' 0 ((exPod ''w'' 1)\<lparr>nodeName := ''B''\<rparr>)]\<rparr>)"
proof -
  define w where "w = exPod ''w'' 1"
  define ns where "ns = [exNode ''A'' 4, exNode ''B'' 4]"
  define k1 where "k1 = simAB\<lparr>pods := [],
      trace := [FilterCall 0 w (exNode ''A'' 4), FilterCall 0 w (exNode ''B'' 4)]\<rparr>"
  define answers :: "(HostPriority list \<times> go_int) list" where
    "answers = [([\<lparr>Host = ''A'', Score = 1\<rparr>, \<lparr>Host = ''B'', Score = 3\<rparr>], 1)]"
  have snap: "snapshot simAB [] = ns"
    by (simp add: snapshot_def ToV1_def simAB_def ns_def)
  have filtered: "filterLoop 0 (filters simAB) w ns [] = (Inr [exNode ''A'' 4], trace k1)"
    by (simp add: simAB_def ns_def k1_def callFilter_def rejectB_def exNode_def)
  have popped: "pop (pods simAB) = (Inr w, [])"
    by (simp add: simAB_def w_def)
  have filter: "scheduleOneFilter (simAB\<lparr>pods := []\<rparr>) w ns = (None, k1)"
    using filtered by (simp add: scheduleOneFilter_def k1_def simAB_def)
  have a: "map (\<lambda>s. s w ns) (scorers k1) = map Inr answers"
    by (simp add: k1_def simAB_def preferB_def answers_def ns_def exNode_def)
  have hosts: "scoredHosts answers = [''A'', ''B'']"
    by (simp add: scoredHosts_def answers_def)
  have tA: "weightedTotal answers ''A'' = 1" and tB: "weightedTotal answers ''B'' = 3"
    by (simp_all add: weightedTotal_def hostScore_def answers_def)
  have "scheduleOneScore k1 w ns ord =
    ((case map_of (nodes k1) ''B'' of None \<Rightarrow> Inl (NotFound ''B'')
       | Some n \<Rightarrow> Inr (''B'', n, w\<lparr>nodeName := ''B''\<rparr>)),
     k1\<lparr>trace := trace k1 @ map (\<lambda>j. ScoreCall j w ns) [0..<length (scorers k1)]\<rparr>)"
    by (rule scheduleOneScore_unique_max [OF a]) (simp_all add: hosts tA tB word_sless_alt)
  then have score: "scheduleOneScore k1 w ns ord =
      (Inr (''B'', exNode ''B'' 4, w\<lparr>nodeName := ''B''\<rparr>),
       k1\<lparr>trace := trace k1 @ [ScoreCall 0 w ns]\<rparr>)"
    by (simp add: k1_def simAB_def)
  have bind: "CreatePod (exNode ''B'' 4) 0 (w\<lparr>nodeName := ''B''\<rparr>)
      = Inr ((exNode ''B'' 4)\<lparr>allocation := [(''cpu'', 1)]\<rparr>)"
    by (simp add: CreatePod_def fits_def qty_def allocate_def exNode_def w_def exPod_def)
  have "scheduleOne simAB 0 ns ord =
      (None, k1\<lparr>nodes := AList.update ''B'' ((exNode ''B'' 4)\<lparr>allocation := [(''cpu'', 1)]\<rparr>) (nodes k1),
         trace := trace k1 @ [ScoreCall 0 w ns, CreatePodCall ''B'' 0 (w\<lparr>nodeName := ''B''\<rparr>)]\<rparr>)"
    by (simp add: scheduleOne_def popped filter score callCreatePod_def bind)
  then have "scheduleOne simAB 0 ns ord =
      (None, simAB\<lparr>nodes := [(''A'', exNode ''A'' 4),
                              (''B'', (exNode ''B'' 4)\<lparr>allocation := [(''cpu'', 1)]\<rparr>)],
         pods := [],
         trace := [FilterCall 0 w (exNode ''A'' 4), FilterCall 0 w (exNode ''B'' 4),
                   ScoreCall 0 w ns, CreatePodCall ''B'' 0 (w\<lparr>nodeName := ''B''\<rparr>)]\<rparr>)"
    by (simp add: k1_def simAB_def)
  with filtered snap show ?thesis
    by (simp add: w_def ns_def)
qed




text \<open>
  C3, as amended. The code has no "no feasible node" condition. The one scheduling attempt
  in which the scorers are handed an empty candidate list is an attempt on an empty node
  snapshot: the candidate list is empty before and after filtering. If the scorers then
  return without error, selection fails with the NotFound error, for the empty node name
  when no score was returned: the same kind of error that reports a selected node missing
  from the registry. (An attempt whose filters remove every node of a non-empty snapshot
  is the subject of C1 and is left out here.)
\<close>

theorem empty_candidates_is_NotFound:
  assumes reg: "nodes k = []"
      and popped: "pop (pods k) = (Inr p, q)"
      and answers: "map (\<lambda>s. s p (snapshot k ordNodes)) (scorers k) = map Inr answers"
  shows "snapshot k ordNodes = []
     \<and> fst (filterLoop 0 (filters k) p (snapshot k ordNodes) (trace k)) = Inr []
     \<and> (\<exists>h. fst (scheduleOne k clk (snapshot k ordNodes) ord) = Some (NotFound h)
            \<and> (list_all (\<lambda>a. fst a = []) answers \<longrightarrow> h = ''''))"
proof -
  have snap: "snapshot k ordNodes = []" using reg by (rule snapshot_no_nodes)
  have "map (\<lambda>s. s p []) (scorers k) = map Inr answers" using answers by (simp add: snap)
  from scheduleOne_empty_registry [OF reg popped this, of clk ord]
  have "\<exists>h. fst (scheduleOne k clk [] ord) = Some (NotFound h)
            \<and> (list_all (\<lambda>a. fst a = []) answers \<longrightarrow> h = '''')" by auto
  then show ?thesis by (simp add: snap filterLoop_no_nodes)
qed

theorem empty_candidates_is_NotFound_witness:
  "nodes simEmpty = []
   \<and> pop (pods simEmpty) = (Inr (exPod ''w'' 1), [])
   \<and> map (\<lambda>s. s (exPod ''w'' 1) (snapshot simEmpty [])) (scorers simEmpty) = map Inr [([], 1)]
   \<and> snapshot simEmpty [] = []
   \<and> fst (filterLoop 0 (filters simEmpty) (exPod ''w'' 1) (snapshot simEmpty []) (trace simEmpty))
        = Inr []
   \<and> fst (scheduleOne simEmpty 0 (snapshot simEmpty []) []) = Some (NotFound '''')"
proof -
  have h1: "nodes simEmpty = []"
    by (simp add: simEmpty_def)
  have h2: "pop (pods simEmpty) = (Inr (exPod ''w'' 1), [])"
    by (simp add: simEmpty_def simAB_def)
  have h3: "map (\<lambda>s. s (exPod ''w'' 1) (snapshot simEmpty [])) (scorers simEmpty) = map Inr [([], 1)]"
    by (simp add: simEmpty_def simAB_def snapshot_def preferB_def)
  from empty_candidates_is_NotFound [OF h1 h2 h3, of 0 "[]"] h1 h2 h3
  show ?thesis by auto
qed

text \<open>
  C3 as stated does not hold: in a cluster without nodes the candidate list of an attempt
  is empty after filtering, and the attempt ends in the NotFound error, as does an attempt
  whose scorer names a host missing from the registry.
\<close>

theorem empty_candidates_same_error_as_missing_node:
  "fst (filterLoop 0 (filters simEmpty) (exPod ''w'' 1) (snapshot simEmpty []) (trace simEmpty))
       = Inr []
   \<and> fst (scheduleOne simEmpty 0 (snapshot simEmpty []) []) = Some (NotFound '''')
   \<and> fst (scheduleOne simGhost 0 (snapshot simGhost []) []) = Some (NotFound ''ghost'')"
  by (simp add: simEmpty_def simAB_def simGhost_def simS1S2_def preferB_def scorerGhost_def
      exNode_def exPod_def snapshot_def ToV1_def scheduleOne_def scheduleOneFilter_def
      scheduleOneScore_def callScore_def addScore_def getScore_def word_sless_alt)

text \<open>
  C4, as amended. When every scorer succeeds, the accumulated score of each host is the
  sum over all scorers of the scorer's scores for that host times the scorer's weight (in
  Go's int arithmetic). A host whose total is at least 0 and strictly greater than the
  total of every other scored host is the one selected, whatever the iteration order: the
  result is that host's node from the registry, or NotFound if the registry does not hold
  it. In the spec's example (S1 with weight 2 and scores A:1, B:3; S2 with weight 1 and
  scores A:5, B:0) node A is chosen.
\<close>

theorem greatest_nonnegative_total_selected:
  assumes answers: "map (\<lambda>s. s p ns) (scorers k) = map Inr answers"
      and h: "h \<in> set (scoredHosts answers)"
      and pos: "0 \<le>s weightedTotal answers h"
      and max: "\<forall>h'\<in>set (scoredHosts answers).
                  h' \<noteq> h \<longrightarrow> weightedTotal answers h' <s weightedTotal answers h"
  shows "(\<exists>m tr. scoreLoop 0 (scorers k) p ns [] (trace k) = (Inr m, tr)
            \<and> (\<forall>h'. getScore m h' = weightedTotal answers h'))
     \<and> fst (scheduleOneScore k p ns ord) =
         (case map_of (nodes k) h of
            None \<Rightarrow> Inl (NotFound h)
          | Some n \<Rightarrow> Inr (h, n, p\<lparr>nodeName := h\<rparr>))
     \<and> fst (scheduleOneScore simS1S2 (exPod ''w'' 1) ns' ord')
         = Inr (''A'', exNode ''A'' 4, (exPod ''w'' 1)\<lparr>nodeName := ''A''\<rparr>)"
proof -
  have "scoreLoop 0 (scorers k) p ns [] (trace k) =
      (Inr (accumulate [] answers), trace k @ map (\<lambda>j. ScoreCall j p ns) [0..<length (scorers k)])"
    using scoreLoop_answers [OF answers, of 0 "[]" "trace k"] by simp
  moreover have "\<forall>h'. getScore (accumulate [] answers) h' = weightedTotal answers h'"
    by (simp add: getScore_accumulate getScore_Nil)
  ultimately have totals: "\<exists>m tr. scoreLoop 0 (scorers k) p ns [] (trace k) = (Inr m, tr)
            \<and> (\<forall>h'. getScore m h' = weightedTotal answers h')" by blast
  have "- 1 <s weightedTotal answers h"
    using pos by (simp add: word_sle_eq word_sless_alt)
  from scheduleOneScore_unique_max [OF answers h this max]
  have selected: "fst (scheduleOneScore k p ns ord) =
         (case map_of (nodes k) h of
            None \<Rightarrow> Inl (NotFound h)
          | Some n \<Rightarrow> Inr (h, n, p\<lparr>nodeName := h\<rparr>))" by simp
  define ex :: "(HostPriority list \<times> go_int) list" where
    "ex = [([\<lparr>Host = ''A'', Score = 1\<rparr>, \<lparr>Host = ''B'', Score = 3\<rparr>], 2),
           ([\<lparr>Host = ''A'', Score = 5\<rparr>, \<lparr>Host = ''B'', Score = 0\<rparr>], 1)]"
  have a: "map (\<lambda>s. s (exPod ''w'' 1) ns') (scorers simS1S2) = map Inr ex"
    by (simp add: simS1S2_def scorerS1_def scorerS2_def ex_def)
  have hosts: "scoredHosts ex = [''A'', ''B'', ''A'', ''B'']"
    by (simp add: scoredHosts_def ex_def)
  have tA: "weightedTotal ex ''A'' = 7" and tB: "weightedTotal ex ''B'' = 6"
    by (simp_all add: weightedTotal_def hostScore_def ex_def)
  have "scheduleOneScore simS1S2 (exPod ''w'' 1) ns' ord' =
    ((case map_of (nodes simS1S2) ''A'' of None \<Rightarrow> Inl (NotFound ''A'')
       | Some n \<Rightarrow> Inr (''A'', n, (exPod ''w'' 1)\<lparr>nodeName := ''A''\<rparr>)),
     simS1S2\<lparr>trace := trace simS1S2
        @ map (\<lambda>j. ScoreCall j (exPod ''w'' 1) ns') [0..<length (scorers simS1S2)]\<rparr>)"
    by (rule scheduleOneScore_unique_max [OF a]) (simp_all add: hosts tA tB word_sless_alt)
  then have example: "fst (scheduleOneScore simS1S2 (exPod ''w'' 1) ns' ord')
         = Inr (''A'', exNode ''A'' 4, (exPod ''w'' 1)\<lparr>nodeName := ''A''\<rparr>)"
    by (simp add: simS1S2_def)
  from totals selected example show ?thesis by blast
qed

theorem greatest_nonnegative_total_selected_witness:
  "map (\<lambda>s. s (exPod ''w'' 1) [exNode ''A'' 4, exNode ''B'' 4]) (scorers simAB)
      = map Inr [([\<lparr>Host = ''A'', Score = 1\<rparr>, \<lparr>Host = ''B'', Score = 3\<rparr>], 1)]
   \<and> ''B'' \<in> set (scoredHosts [([\<lparr>Host = ''A'', Score = 1\<rparr>, \<lparr>Host = ''B'', Score = 3\<rparr>], 1)])
   \<and> 0 \<le>s weightedTotal [([\<lparr>Host = ''A'', Score = 1\<rparr>, \<lparr>Host = ''B'', Score = 3\<rparr>], 1)] ''B''
   \<and> weightedTotal [([\<lparr>Host = ''A'', Score = 1\<rparr>, \<lparr>Host = ''B'', Score = 3\<rparr>], 1)] ''A''
        <s weightedTotal [([\<lparr>Host = ''A'', Score = 1\<rparr>, \<lparr>Host = ''B'', Score = 3\<rparr>], 1)] ''B''
   \<and> fst (scheduleOneScore simAB (exPod ''w'' 1) [exNode ''A'' 4, exNode ''B'' 4] [1])
        = Inr (''B'', exNode ''B'' 4, (exPod ''w'' 1)\<lparr>nodeName := ''B''\<rparr>)
   \<and> fst (scheduleOneScore simS1S2 (exPod ''w'' 1) [exNode ''A'' 4, exNode ''B'' 4] [1])
        = Inr (''A'', exNode ''A'' 4, (exPod ''w'' 1)\<lparr>nodeName := ''A''\<rparr>)"
proof -
  define ans :: "(HostPriority list \<times> go_int) list" where
    "ans = [([\<lparr>Host = ''A'', Score = 1\<rparr>, \<lparr>Host = ''B'', Score = 3\<rparr>], 1)]"
  have h1: "map (\<lambda>s. s (exPod ''w'' 1) [exNode ''A'' 4, exNode ''B'' 4]) (scorers simAB) = map Inr ans"
    by (simp add: simAB_def preferB_def exNode_def ans_def)
  have hosts: "scoredHosts ans = [''A'', ''B'']"
    by (simp add: scoredHosts_def ans_def)
  have tA: "weightedTotal ans ''A'' = 1" and tB: "weightedTotal ans ''B'' = 3"
    by (simp_all add: weightedTotal_def hostScore_def ans_def)
  have h2: "''B'' \<in> set (scoredHosts ans)" by (simp add: hosts)
  have h3: "0 \<le>s weightedTotal ans ''B''" by (simp add: tB word_sle_eq)
  have h4: "\<forall>h'\<in>set (scoredHosts ans). h' \<noteq> ''B'' \<longrightarrow> weightedTotal ans h' <s weightedTotal ans ''B''"
    by (simp add: hosts tA tB word_sless_alt)
  have h5: "weightedTotal ans ''A'' <s weightedTotal ans ''B''"
    by (simp add: tA tB word_sless_alt)
  have reg: "map_of (nodes simAB) ''B'' = Some (exNode ''B'' 4)"
    by (simp add: simAB_def)
  from greatest_nonnegative_total_selected [OF h1 h2 h3 h4,
      of "[1]" "[exNode ''A'' 4, exNode ''B'' 4]" "[1]"] h1 h2 h3 h5 reg
  show ?thesis unfolding ans_def by simp
qed

text \<open>
  C4 as stated does not hold: with totals A:-1 and B:-5, node A has the strictly greatest
  total and is in the registry, yet no node is selected and the attempt fails with
  NotFound for the empty name.
\<close>

theorem negative_greatest_total_not_selected:
  "map (\<lambda>s. s (exPod ''w'' 1) (snapshot simNeg [])) (scorers simNeg)
      = map Inr [([\<lparr>Host = ''A'', Score = - 1\<rparr>, \<lparr>Host = ''B'', Score = - 5\<rparr>], 1)]
   \<and> weightedTotal [([\<lparr>Host = ''A'', Score = - 1\<rparr>, \<lparr>Host = ''B'', Score = - 5\<rparr>], 1)] ''B''
        <s weightedTotal [([\<lparr>Host = ''A'', Score = - 1\<rparr>, \<lparr>Host = ''B'', Score = - 5\<rparr>], 1)] ''A''
   \<and> map_of (nodes simNeg) ''A'' = Some (exNode ''A'' 4)
   \<and> fst (scheduleOneScore simNeg (exPod ''w'' 1) (snapshot simNeg []) []) = Inl (NotFound '''')"
  by (simp add: simNeg_def simS1S2_def scorerNeg_def exNode_def exPod_def weightedTotal_def
      hostScore_def snapshot_def ToV1_def scheduleOneScore_def callScore_def addScore_def
      getScore_def word_sless_alt)

text \<open>
  C5. With \<open>CreatePod\<close> as the spec describes bind: if every node of the registry has its
  allocation within its capacity for every resource kind, the same holds after any
  sequence of events of \<open>Run\<close>, so at every point of a run. \<open>CreatePod\<close> accepts exactly
  when allocation plus request is within capacity for every requested kind; when it
  accepts, the allocation grows by the request; when it rejects, it returns
  capacity-exceeded, and a scheduling attempt that ends in an error leaves the registry as
  it was.
\<close>

theorem capacity_invariant:
  assumes inv: "capacityInvariant k"
  shows "capacityInvariant (snd (Run k clk evs))
     \<and> (\<forall>entry\<in>set (nodes (snd (Run k clk evs))). \<forall>kind.
           qty (allocation (snd entry)) kind \<le> qty (capacity (snd entry)) kind)
     \<and> (fits n p \<longleftrightarrow> (\<forall>kind\<in>fst ` set (requests p).
           qty (allocation n) kind + qty (requests p) kind \<le> qty (capacity n) kind))
     \<and> (fits n p \<longrightarrow>
           CreatePod n clk' p = Inr (n\<lparr>allocation := allocate (allocation n) (requests p)\<rparr>)
           \<and> (\<forall>kind. qty (allocate (allocation n) (requests p)) kind
                  = qty (allocation n) kind + qty (requests p) kind))
     \<and> (\<not> fits n p \<longrightarrow> CreatePod n clk' p = Inl (CapacityExceeded (node_name n)))
     \<and> (fst (scheduleOne k clk' ns ord) = Some err \<longrightarrow>
           nodes (snd (scheduleOne k clk' ns ord)) = nodes k)"
proof -
  have after: "capacityInvariant (snd (Run k clk evs))"
    using inv by (rule Run_invariant)
  then have each: "\<forall>entry\<in>set (nodes (snd (Run k clk evs))). \<forall>kind.
           qty (allocation (snd entry)) kind \<le> qty (capacity (snd entry)) kind"
    by (auto simp: capacityInvariant_def list_all_iff withinCapacity_iff)
  have check: "fits n p \<longleftrightarrow> (\<forall>kind\<in>fst ` set (requests p).
           qty (allocation n) kind + qty (requests p) kind \<le> qty (capacity n) kind)"
    by (simp add: fits_def list_all_iff)
  have accept: "fits n p \<longrightarrow>
           CreatePod n clk' p = Inr (n\<lparr>allocation := allocate (allocation n) (requests p)\<rparr>)
           \<and> (\<forall>kind. qty (allocate (allocation n) (requests p)) kind
                  = qty (allocation n) kind + qty (requests p) kind)"
    by (simp add: CreatePod_def qty_allocate)
  have reject: "\<not> fits n p \<longrightarrow> CreatePod n clk' p = Inl (CapacityExceeded (node_name n))"
    by (simp add: CreatePod_def)
  have keep: "fst (scheduleOne k clk' ns ord) = Some err \<longrightarrow>
           nodes (snd (scheduleOne k clk' ns ord)) = nodes k"
    using scheduleOne_error_keeps_nodes by blast
  from after each check accept reject keep show ?thesis by blast
qed

theorem capacity_invariant_witness:
  "capacityInvariant simSubmit
   \<and> capacityInvariant (snd (Run simSubmit 0 [Tick [] [], Tick [] []]))
   \<and> map_of (nodes (snd (Run simSubmit 0 [Tick [] [], Tick [] []]))) ''A''
        = Some ((exNode ''A'' 4)\<lparr>allocation := [(''cpu'', 2)]\<rparr>)
   \<and> fits (exNode ''A'' 4) (exPod ''w'' 1)
   \<and> CreatePod (exNode ''A'' 4) 0 (exPod ''w'' 1)
        = Inr ((exNode ''A'' 4)\<lparr>allocation := allocate (allocation (exNode ''A'' 4))
                                               (requests (exPod ''w'' 1))\<rparr>)
   \<and> capacityInvariant simSmall
   \<and> \<not> fits (exNode ''A'' 2) (exPod ''big'' 3)
   \<and> CreatePod (exNode ''A'' 2) 0 (exPod ''big'' 3) = Inl (CapacityExceeded ''A'')
   \<and> fst (scheduleOne simSmall 0 [exNode ''A'' 2] []) = Some (CapacityExceeded ''A'')
   \<and> nodes (snd (scheduleOne simSmall 0 [exNode ''A'' 2] [])) = nodes simSmall"
proof -
  have h1: "capacityInvariant simSubmit"
    by (simp add: capacityInvariant_def withinCapacity_def simSubmit_def exNode_def)
  have h2: "capacityInvariant simSmall"
    by (simp add: capacityInvariant_def withinCapacity_def simSmall_def exNode_def)
  have h3: "fits (exNode ''A'' 4) (exPod ''w'' 1)"
    by (simp add: fits_def qty_def exNode_def exPod_def)
  have h4: "\<not> fits (exNode ''A'' 2) (exPod ''big'' 3)"
    by (simp add: fits_def qty_def exNode_def exPod_def)
  have h5: "fst (scheduleOne simSmall 0 [exNode ''A'' 2] []) = Some (CapacityExceeded ''A'')"
    by (simp add: scheduleOne_def scheduleOneFilter_def scheduleOneScore_def callScore_def
        callCreatePod_def CreatePod_def fits_def qty_def addScore_def getScore_def
        simSmall_def preferB_def exNode_def exPod_def word_sless_alt)
  have run: "map_of (nodes (snd (Run simSubmit 0 [Tick [] [], Tick [] []]))) ''A''
        = Some ((exNode ''A'' 4)\<lparr>allocation := [(''cpu'', 2)]\<rparr>)"
    by (simp add: Let_def snapshot_def ToV1_def submit_def callSubmit_def append_pod_def
        scheduleOne_def scheduleOneFilter_def scheduleOneScore_def callScore_def
        callCreatePod_def CreatePod_def fits_def qty_def allocate_def addScore_def getScore_def
        simSubmit_def submitOne_def submitNone_def preferB_def exNode_def exPod_def
        word_sless_alt)
  have name: "node_name (exNode ''A'' 2) = ''A''" by (simp add: exNode_def)
  from capacity_invariant [OF h1, where clk = 0 and evs = "[Tick [] [], Tick [] []]"
      and n = "exNode ''A'' 4" and p = "exPod ''w'' 1" and clk' = 0]
    capacity_invariant [OF h2, where clk = 0 and evs = "[]" and n = "exNode ''A'' 2"
      and p = "exPod ''big'' 3" and clk' = 0 and ns = "[exNode ''A'' 2]" and ord = "[]"
      and err = "CapacityExceeded ''A''"]
    h1 h2 h3 h4 h5 run name
  show ?thesis by simp
qed

text \<open>
  C6. The candidate list after j filters is the value of the local variable \<open>nodes\<close> of
  \<open>scheduleOneFilter\<close> after j rounds of its outer loop, which is the result of the loop
  over the first j filters (\<open>filterLoop_append\<close>). Whenever the list after j+1 filters
  exists (no filter call failed), the list after j filters exists too and contains it: the
  later list is the earlier one restricted to the nodes filter j accepts. And a node that
  filter i rejects is never presented to filter i+1: no call of filter i+1 on it is made.
\<close>

theorem filter_monotone:
  assumes j: "j < length fs"
      and after: "fst (filterLoop 0 (take (Suc j) fs) p ns tr) = Inr after"
  shows "(\<exists>before. fst (filterLoop 0 (take j fs) p ns tr) = Inr before
            \<and> set after \<subseteq> set before
            \<and> after = filter (\<lambda>n. (fs ! j) p n = Inr True) before)
     \<and> ((fs ! i) p n = Inr False \<longrightarrow> FilterCall (Suc i) p n \<notin> set (snd (filterLoop 0 fs p ns [])))"
proof -
  obtain r0 tr0 where first: "filterLoop 0 (take j fs) p ns tr = (r0, tr0)"
    by (cases "filterLoop 0 (take j fs) p ns tr")
  have split: "take (Suc j) fs = take j fs @ [fs ! j]"
    using j by (rule take_Suc_conv_app_nth)
  have len: "length (take j fs) = j" using j by simp
  have step: "filterLoop 0 (take (Suc j) fs) p ns tr =
      (case r0 of Inl err \<Rightarrow> (Inl err, tr0)
       | Inr before \<Rightarrow> filterLoop j [fs ! j] p before tr0)"
    unfolding split filterLoop_append first len by (cases r0) simp_all
  have part1: "\<exists>before. fst (filterLoop 0 (take j fs) p ns tr) = Inr before
            \<and> set after \<subseteq> set before
            \<and> after = filter (\<lambda>n. (fs ! j) p n = Inr True) before"
  proof (cases r0)
    case (Inl err)
    with step after show ?thesis by simp
  next
    case (Inr before)
    obtain r1 tr1 where inner: "filterNodes j (fs ! j) p before [] tr0 = (r1, tr1)"
      by (cases "filterNodes j (fs ! j) p before [] tr0")
    with step Inr after have "r1 = Inr after" by (cases r1) simp_all
    with inner filterNodes_accepts [of j "fs ! j" p before "[]" tr0 after tr1]
    have "after = filter (\<lambda>n. (fs ! j) p n = Inr True) before" by simp
    with first Inr show ?thesis by auto
  qed
  have part2: "FilterCall (Suc i) p n \<notin> set (snd (filterLoop 0 fs p ns []))"
    if rejected: "(fs ! i) p n = Inr False"
  proof
    assume called: "FilterCall (Suc i) p n \<in> set (snd (filterLoop 0 fs p ns []))"
    obtain r tr' where loop: "filterLoop 0 fs p ns [] = (r, tr')"
      by (cases "filterLoop 0 fs p ns []")
    have "drop 0 fs = fs" by simp
    from filterLoop_presented [OF this loop] obtain cs where
      cs: "tr' = [] @ cs"
      "\<forall>c\<in>set cs. \<exists>j n. c = FilterCall j p n \<and> 0 \<le> j \<and> j < length fs \<and>
          (if j = 0 then n \<in> set ns else (fs ! (j - 1)) p n = Inr True)" by blast
    from called loop cs(1) have "FilterCall (Suc i) p n \<in> set cs" by simp
    with cs(2) have "(fs ! i) p n = Inr True" by fastforce
    with rejected show False by simp
  qed
  from part1 part2 show ?thesis by blast
qed

theorem filter_monotone_witness:
  "(0::nat) < length (filters simTwoFilters)
   \<and> fst (filterLoop 0 (take (Suc 0) (filters simTwoFilters)) (exPod ''w'' 1)
        [exNode ''A'' 4, exNode ''B'' 4] []) = Inr [exNode ''A'' 4]
   \<and> (filters simTwoFilters ! 0) (exPod ''w'' 1) (exNode ''B'' 4) = Inr False
   \<and> fst (filterLoop 0 (take 0 (filters simTwoFilters)) (exPod ''w'' 1)
        [exNode ''A'' 4, exNode ''B'' 4] []) = Inr [exNode ''A'' 4, exNode ''B'' 4]
   \<and> FilterCall (Suc 0) (exPod ''w'' 1) (exNode ''B'' 4)
        \<notin> set (snd (filterLoop 0 (filters simTwoFilters) (exPod ''w'' 1)
                    [exNode ''A'' 4, exNode ''B'' 4] []))
   \<and> FilterCall (Suc 0) (exPod ''w'' 1) (exNode ''A'' 4)
        \<in> set (snd (filterLoop 0 (filters simTwoFilters) (exPod ''w'' 1)
                    [exNode ''A'' 4, exNode ''B'' 4] []))"
proof -
  have h1: "(0::nat) < length (filters simTwoFilters)"
    by (simp add: simTwoFilters_def)
  have h2: "fst (filterLoop 0 (take (Suc 0) (filters simTwoFilters)) (exPod ''w'' 1)
        [exNode ''A'' 4, exNode ''B'' 4] []) = Inr [exNode ''A'' 4]"
    by (simp add: simTwoFilters_def callFilter_def rejectB_def exNode_def)
  have h3: "(filters simTwoFilters ! 0) (exPod ''w'' 1) (exNode ''B'' 4) = Inr False"
    by (simp add: simTwoFilters_def rejectB_def exNode_def)
  have h4: "fst (filterLoop 0 (take 0 (filters simTwoFilters)) (exPod ''w'' 1)
        [exNode ''A'' 4, exNode ''B'' 4] []) = Inr [exNode ''A'' 4, exNode ''B'' 4]"
    by simp
  have h5: "FilterCall (Suc 0) (exPod ''w'' 1) (exNode ''A'' 4)
        \<in> set (snd (filterLoop 0 (filters simTwoFilters) (exPod ''w'' 1)
                    [exNode ''A'' 4, exNode ''B'' 4] []))"
    by (simp add: simTwoFilters_def callFilter_def rejectB_def acceptAll_def exNode_def)
  from filter_monotone [OF h1 h2, of 0 "exNode ''B'' 4"] h1 h2 h3 h4 h5
  show ?thesis by simp
qed

text \<open>
  C7. In a scheduling attempt for a popped pod, let \<open>cs\<close> be the calls the attempt makes.
  If some call in \<open>cs\<close> is a filter call that returned an error, then the attempt returns
  exactly that error, that call is the last call of the attempt (no later filter call, no
  scorer call and no \<open>CreatePod\<close> follow), and the registry is unchanged.
\<close>

theorem filter_error_aborts:
  assumes popped: "pop (pods k) = (Inr p, q)"
      and run: "scheduleOne k clk ns ord = (res, k')"
      and tr: "trace k' = trace k @ cs"
      and j: "j < length cs"
      and failed: "filterCallResult (filters k) (cs ! j) = Some (Inl err)"
  shows "res = Some err \<and> Suc j = length cs \<and> nodes k' = nodes k"
proof -
  obtain r1 tr1 where loop: "filterLoop 0 (filters k) p ns (trace k) = (r1, tr1)"
    by (cases "filterLoop 0 (filters k) p ns (trace k)")
  have "drop 0 (filters k) = filters k" by simp
  from filterLoop_calls [OF this loop] obtain fcs where
    fcs: "tr1 = trace k @ fcs" "attemptCalls (filters k) r1 fcs" by blast
  show ?thesis
  proof (cases r1)
    case (Inl e)
    from scheduleOne_after_filter_error [OF popped loop [unfolded Inl], of clk ord] run
    have res: "res = Some e" and k': "k' = k\<lparr>pods := q, trace := tr1\<rparr>" by simp_all
    from k' tr fcs(1) have cs: "cs = fcs" by simp
    from fcs(2) Inl have last: "fcs \<noteq> []" "filterCallResult (filters k) (last fcs) = Some (Inl e)"
      and rest: "list_all (callSucceeded (filters k)) (butlast fcs)"
      by (simp_all add: attemptCalls_def)
    have "\<not> j < length (butlast fcs)"
    proof
      assume "j < length (butlast fcs)"
      then have "butlast fcs ! j \<in> set (butlast fcs)" and "butlast fcs ! j = fcs ! j"
        by (rule nth_mem, rule nth_butlast)
      with rest have "callSucceeded (filters k) (fcs ! j)" by (auto simp: list_all_iff)
      with failed cs show False by (simp add: callSucceeded_def)
    qed
    with j cs have jlast: "Suc j = length fcs" by simp
    with last(1) have "fcs ! j = last fcs" by (metis diff_Suc_1 last_conv_nth)
    with failed cs last(2) have "err = e" by simp
    with res jlast cs k' show ?thesis by simp
  next
    case (Inr oks)
    from fcs(2) Inr have good: "list_all (callSucceeded (filters k)) fcs"
      by (simp add: attemptCalls_def)
    from scheduleOne_after_filter_ok [OF popped loop [unfolded Inr] run, of "filters k"]
    obtain rest where rest: "trace k' = tr1 @ rest"
      "\<forall>c\<in>set rest. filterCallResult (filters k) c = None" by blast
    from rest(1) tr fcs(1) have cs: "cs = fcs @ rest" by simp
    from j have "cs ! j \<in> set cs" by simp
    with cs have "cs ! j \<in> set fcs \<or> cs ! j \<in> set rest" by simp
    then have False
    proof
      assume "cs ! j \<in> set fcs"
      with good have "callSucceeded (filters k) (cs ! j)" by (auto simp: list_all_iff)
      with failed show False by (simp add: callSucceeded_def)
    next
      assume "cs ! j \<in> set rest"
      with rest(2) failed show False by simp
    qed
    then show ?thesis ..
  qed
qed

theorem filter_error_aborts_witness:
  "pop (pods simFailing) = (Inr (exPod ''w'' 1), [])
   \<and> scheduleOne simFailing 0 [exNode ''A'' 4, exNode ''B'' 4] [] =
       (Some (PluginError ''filter''),
        simFailing\<lparr>pods := [],
          trace := [FilterCall 0 (exPod ''w'' 1) (exNode ''A'' 4),
                    FilterCall 0 (exPod ''w'' 1) (exNode ''B'' 4),
                    FilterCall 1 (exPod ''w'' 1) (exNode ''A'' 4),
                    FilterCall 1 (exPod ''w'' 1) (exNode ''B'' 4)]\<rparr>)
   \<and> trace simFailing = []
   \<and> filterCallResult (filters simFailing) (FilterCall 1 (exPod ''w'' 1) (exNode ''B'' 4))
       = Some (Inl (PluginError ''filter''))
   \<and> nodes (simFailing\<lparr>pods := [],
          trace := [FilterCall 0 (exPod ''w'' 1) (exNode ''A'' 4),
                    FilterCall 0 (exPod ''w'' 1) (exNode ''B'' 4),
                    FilterCall 1 (exPod ''w'' 1) (exNode ''A'' 4),
                    FilterCall 1 (exPod ''w'' 1) (exNode ''B'' 4)]\<rparr>) = nodes simFailing"
proof -
  define cs where "cs = [FilterCall 0 (exPod ''w'' 1) (exNode ''A'' 4),
                    FilterCall 0 (exPod ''w'' 1) (exNode ''B'' 4),
                    FilterCall 1 (exPod ''w'' 1) (exNode ''A'' 4),
                    FilterCall 1 (exPod ''w'' 1) (exNode ''B'' 4)]"
  have h1: "pop (pods simFailing) = (Inr (exPod ''w'' 1), [])"
    by (simp add: simFailing_def simAB_def)
  have h2: "scheduleOne simFailing 0 [exNode ''A'' 4, exNode ''B'' 4] [] =
       (Some (PluginError ''filter''), simFailing\<lparr>pods := [], trace := cs\<rparr>)"
    by (simp add: scheduleOne_def scheduleOneFilter_def callFilter_def simFailing_def simAB_def
        acceptAll_def failOnB_def exNode_def cs_def)
  have h3: "trace (simFailing\<lparr>pods := [], trace := cs\<rparr>) = trace simFailing @ cs"
    by (simp add: simFailing_def simAB_def)
  have h4: "(3::nat) < length cs"
    by (simp add: cs_def)
  have h5: "filterCallResult (filters simFailing) (cs ! 3) = Some (Inl (PluginError ''filter''))"
    by (simp add: cs_def simFailing_def failOnB_def exNode_def)
  have h6: "trace simFailing = []"
    by (simp add: simFailing_def simAB_def)
  from filter_error_aborts [OF h1 h2 h3 h4 h5] h1 h2 h5 h6
  show ?thesis by (simp add: cs_def)
qed

text \<open>
  C8. On a tick whose queue is empty when \<open>scheduleOne\<close> runs (the submitters returned
  no error and left the queue empty), \<open>scheduleOne\<close> returns no error and leaves the
  whole state as it is, the record of calls included: no filter call, no scorer call and no
  \<open>CreatePod\<close> is made. The calls of the tick are submitter calls only, the registry is
  the one the tick started with, and \<open>Run\<close> goes on with the next event.
\<close>

theorem empty_queue_tick_is_noop:
  assumes clk: "clk' = clock_Add clk (tick k * time_Second)"
      and ns: "ns = snapshot k ordNodes"
      and sub: "submit k clk' ns = (None, k1)"
      and empty: "pods k1 = []"
  shows "scheduleOne k1 clk' ns ord = (None, k1)
     \<and> Run k clk (Tick ordNodes ord # evs) = Run k1 clk' evs
     \<and> nodes k1 = nodes k
     \<and> (\<exists>n. trace k1 = trace k @ map (\<lambda>j. SubmitCall j clk' ns) [0..<n])"
proof -
  have idle: "scheduleOne k1 clk' ns ord = (None, k1)"
    using empty by (rule scheduleOne_empty_queue)
  have "Run k clk (Tick ordNodes ord # evs) = Run k1 clk' evs"
    unfolding clk by (rule Run_tick_continues) (use sub idle clk ns in simp_all)
  moreover have "nodes k1 = nodes k"
    using submit_fields [OF sub] by simp
  moreover have "\<exists>n. trace k1 = trace k @ map (\<lambda>j. SubmitCall j clk' ns) [0..<n]"
    using submitLoop_trace [of 0 "submitters k" clk' ns "pods k" "trace k"] sub
    by (auto simp: submit_def split: prod.splits)
  ultimately show ?thesis using idle by blast
qed

theorem empty_queue_tick_is_noop_witness:
  "submit simIdle (clock_Add 0 (tick simIdle * time_Second)) (snapshot simIdle [])
      = (None, simIdle\<lparr>trace := [SubmitCall 0 10000000000 [exNode ''A'' 4]]\<rparr>)
   \<and> pods (simIdle\<lparr>trace := [SubmitCall 0 10000000000 [exNode ''A'' 4]]\<rparr>) = []
   \<and> scheduleOne (simIdle\<lparr>trace := [SubmitCall 0 10000000000 [exNode ''A'' 4]]\<rparr>)
        (clock_Add 0 (tick simIdle * time_Second)) (snapshot simIdle []) []
      = (None, simIdle\<lparr>trace := [SubmitCall 0 10000000000 [exNode ''A'' 4]]\<rparr>)
   \<and> Run simIdle 0 [Tick [] []]
      = (None, simIdle\<lparr>trace := [SubmitCall 0 10000000000 [exNode ''A'' 4]]\<rparr>)"
proof -
  define k1 where "k1 = simIdle\<lparr>trace := [SubmitCall 0 10000000000 [exNode ''A'' 4]]\<rparr>"
  have h1: "submit simIdle (clock_Add 0 (tick simIdle * time_Second)) (snapshot simIdle []) = (None, k1)"
    by (simp add: submit_def callSubmit_def simIdle_def simSubmit_def submitNone_def snapshot_def
        ToV1_def clock_Add_def time_Second_def k1_def)
  have h2: "pods k1 = []"
    by (simp add: k1_def simIdle_def simSubmit_def)
  from empty_queue_tick_is_noop [OF refl refl h1 h2, of "[]" "[]"] h1 h2
  show ?thesis by (simp add: k1_def)
qed

text \<open>
  C9, as amended. On a tick, with the clock and the snapshot \<open>Run\<close> computes, the
  registered submitters are called in registration order, each at most once, up to and
  including the first that returns an error. If every submitter succeeds, each is called
  exactly once, the queue grows by all produced pods in order, \<open>Run\<close> goes on with exactly
  that state into the scheduling attempt, and the attempt calls no submitter. If a
  submitter fails, the submitters before it have been called once each, in order, and
  their pods are in the queue, the failing one is the last called, no later submitter is
  called, and \<open>Run\<close> returns its error.
\<close>

theorem submitters_run_in_order:
  assumes clk: "clk' = clock_Add clk (tick k * time_Second)"
      and ns: "ns = snapshot k ordNodes"
  shows "(map (\<lambda>s. s clk' ns) (submitters k) = map Inr outs
          \<and> kS = k\<lparr>pods := pods k @ concat outs,
                     trace := trace k @ map (\<lambda>i. SubmitCall i clk' ns) [0..<length (submitters k)]\<rparr>
          \<longrightarrow>
            submit k clk' ns = (None, kS)
            \<and> Run k clk (Tick ordNodes ord # evs) =
                (case scheduleOne kS clk' ns ord of
                   (Some e, k2) \<Rightarrow> (Some e, k2)
                 | (None, k2) \<Rightarrow> Run k2 clk' evs)
            \<and> (\<exists>cs. trace (snd (scheduleOne kS clk' ns ord)) = trace kS @ cs
                      \<and> list_all (\<lambda>c. \<not> isSubmitCall c) cs))
     \<and> (submitters k = pre @ s # post \<and> map (\<lambda>s. s clk' ns) pre = map Inr outs
          \<and> s clk' ns = Inl err
          \<and> kE = k\<lparr>pods := pods k @ concat outs,
                     trace := trace k @ map (\<lambda>i. SubmitCall i clk' ns) [0..<Suc (length pre)]\<rparr>
          \<longrightarrow>
            submit k clk' ns = (Some err, kE)
            \<and> Run k clk (Tick ordNodes ord # evs) = (Some err, kE))"
proof -
  have ok: "submit k clk' ns = (None, kS)
      \<and> Run k clk (Tick ordNodes ord # evs) =
                (case scheduleOne kS clk' ns ord of
                   (Some e, k2) \<Rightarrow> (Some e, k2)
                 | (None, k2) \<Rightarrow> Run k2 clk' evs)
      \<and> (\<exists>cs. trace (snd (scheduleOne kS clk' ns ord)) = trace kS @ cs
                      \<and> list_all (\<lambda>c. \<not> isSubmitCall c) cs)"
    if all: "map (\<lambda>s. s clk' ns) (submitters k) = map Inr outs"
      and kS: "kS = k\<lparr>pods := pods k @ concat outs,
                     trace := trace k @ map (\<lambda>i. SubmitCall i clk' ns) [0..<length (submitters k)]\<rparr>"
  proof -
    have sub: "submit k clk' ns = (None, kS)"
      using submitLoop_all_ok [OF all, of 0 "pods k" "trace k"] by (simp add: submit_def kS)
    then have "submit k (clock_Add clk (tick k * time_Second)) (snapshot k ordNodes) = (None, kS)"
      by (simp add: clk ns)
    then have "Run k clk (Tick ordNodes ord # evs) =
                (case scheduleOne kS clk' ns ord of
                   (Some e, k2) \<Rightarrow> (Some e, k2)
                 | (None, k2) \<Rightarrow> Run k2 clk' evs)"
      unfolding clk ns by (rule Run_tick_unfold)
    with sub scheduleOne_no_submit_calls [of kS clk' ns ord] show ?thesis by blast
  qed
  have failed: "submit k clk' ns = (Some err, kE) \<and> Run k clk (Tick ordNodes ord # evs) = (Some err, kE)"
    if split: "submitters k = pre @ s # post" and pre: "map (\<lambda>s. s clk' ns) pre = map Inr outs"
      and err: "s clk' ns = Inl err"
      and kE: "kE = k\<lparr>pods := pods k @ concat outs,
                     trace := trace k @ map (\<lambda>i. SubmitCall i clk' ns) [0..<Suc (length pre)]\<rparr>"
  proof -
    have sub: "submit k clk' ns = (Some err, kE)"
      using submitLoop_first_error [where clk = clk' and ns = ns and pre = pre and s = s
          and outs = outs and err = err and i = 0 and post = post and q = "pods k"
          and tr = "trace k", OF pre err]
      by (simp add: submit_def split kE)
    then have "Run k clk (Tick ordNodes ord # evs) = (Some err, kE)"
      unfolding clk ns by (rule Run_submit_error)
    with sub show ?thesis by simp
  qed
  from ok failed show ?thesis by blast
qed

theorem submitters_run_in_order_witness:
  "map (\<lambda>s. s 10000000000 [exNode ''A'' 4]) (submitters simSubmit) = map Inr [[exPod ''w'' 1], []]
   \<and> submit simSubmit 10000000000 [exNode ''A'' 4] =
       (None, simSubmit\<lparr>pods := [exPod ''w'' 1],
          trace := [SubmitCall 0 10000000000 [exNode ''A'' 4],
                    SubmitCall 1 10000000000 [exNode ''A'' 4]]\<rparr>)
   \<and> Run simSubmit 0 [Tick [] []] =
       (None, simSubmit\<lparr>nodes := [(''A'', (exNode ''A'' 4)\<lparr>allocation := [(''cpu'', 1)]\<rparr>)],
          pods := [],
          trace := [SubmitCall 0 10000000000 [exNode ''A'' 4],
                    SubmitCall 1 10000000000 [exNode ''A'' 4],
                    ScoreCall 0 (exPod ''w'' 1) [exNode ''A'' 4],
                    CreatePodCall ''A'' 10000000000 ((exPod ''w'' 1)\<lparr>nodeName := ''A''\<rparr>)]\<rparr>)
   \<and> submitters simSubmitFails = [submitOne] @ submitFails # [submitOne]
   \<and> map (\<lambda>s. s 10000000000 [exNode ''A'' 4]) [submitOne] = map Inr [[exPod ''w'' 1]]
   \<and> submitFails 10000000000 [exNode ''A'' 4] = Inl (PluginError ''submitter'')
   \<and> Run simSubmitFails 0 [Tick [] [], Tick [] []] =
       (Some (PluginError ''submitter''),
        simSubmitFails\<lparr>pods := [exPod ''w'' 1],
          trace := [SubmitCall 0 10000000000 [exNode ''A'' 4],
                    SubmitCall 1 10000000000 [exNode ''A'' 4]]\<rparr>)"
proof -
  define kS where "kS = simSubmit\<lparr>pods := pods simSubmit @ concat [[exPod ''w'' 1], []],
      trace := trace simSubmit
        @ map (\<lambda>i. SubmitCall i 10000000000 [exNode ''A'' 4]) [0..<length (submitters simSubmit)]\<rparr>"
  define kE where "kE = simSubmitFails\<lparr>pods := pods simSubmitFails @ concat [[exPod ''w'' 1]],
      trace := trace simSubmitFails
        @ map (\<lambda>i. SubmitCall i 10000000000 [exNode ''A'' 4]) [0..<Suc (length [submitOne])]\<rparr>"
  have c1: "(10000000000::int) = clock_Add 0 (tick simSubmit * time_Second)"
    by (simp add: clock_Add_def time_Second_def simSubmit_def)
  have n1: "[exNode ''A'' 4] = snapshot simSubmit []"
    by (simp add: snapshot_def ToV1_def simSubmit_def)
  have c2: "(10000000000::int) = clock_Add 0 (tick simSubmitFails * time_Second)"
    by (simp add: clock_Add_def time_Second_def simSubmitFails_def simSubmit_def)
  have n2: "[exNode ''A'' 4] = snapshot simSubmitFails []"
    by (simp add: snapshot_def ToV1_def simSubmitFails_def simSubmit_def)
  have h1: "map (\<lambda>s. s 10000000000 [exNode ''A'' 4]) (submitters simSubmit)
      = map Inr [[exPod ''w'' 1], []]"
    by (simp add: simSubmit_def submitOne_def submitNone_def)
  have h2: "submitters simSubmitFails = [submitOne] @ submitFails # [submitOne]"
    by (simp add: simSubmitFails_def simSubmit_def)
  have h3: "map (\<lambda>s. s 10000000000 [exNode ''A'' 4]) [submitOne] = map Inr [[exPod ''w'' 1]]"
    by (simp add: submitOne_def)
  have h4: "submitFails 10000000000 [exNode ''A'' 4] = Inl (PluginError ''submitter'')"
    by (simp add: submitFails_def)
  have upt2: "[0..<2] = [0, Suc 0]" by (simp add: upt_rec)
  have kS: "kS = simSubmit\<lparr>pods := [exPod ''w'' 1],
          trace := [SubmitCall 0 10000000000 [exNode ''A'' 4],
                    SubmitCall 1 10000000000 [exNode ''A'' 4]]\<rparr>"
    by (simp add: kS_def simSubmit_def upt2)
  have kE: "kE = simSubmitFails\<lparr>pods := [exPod ''w'' 1],
          trace := [SubmitCall 0 10000000000 [exNode ''A'' 4],
                    SubmitCall 1 10000000000 [exNode ''A'' 4]]\<rparr>"
    by (simp add: kE_def simSubmitFails_def simSubmit_def upt2)
  have attempt: "scheduleOne kS 10000000000 [exNode ''A'' 4] [] =
       (None, simSubmit\<lparr>nodes := [(''A'', (exNode ''A'' 4)\<lparr>allocation := [(''cpu'', 1)]\<rparr>)],
          pods := [],
          trace := [SubmitCall 0 10000000000 [exNode ''A'' 4],
                    SubmitCall 1 10000000000 [exNode ''A'' 4],
                    ScoreCall 0 (exPod ''w'' 1) [exNode ''A'' 4],
                    CreatePodCall ''A'' 10000000000 ((exPod ''w'' 1)\<lparr>nodeName := ''A''\<rparr>)]\<rparr>)"
    unfolding kS
    by (simp add: scheduleOne_def scheduleOneFilter_def scheduleOneScore_def callScore_def
        callCreatePod_def CreatePod_def fits_def qty_def allocate_def addScore_def getScore_def
        simSubmit_def preferB_def exNode_def exPod_def word_sless_alt)
  have sub: "submit simSubmit 10000000000 [exNode ''A'' 4] = (None, kS)"
    and run: "Run simSubmit 0 [Tick [] []] =
          (case scheduleOne kS 10000000000 [exNode ''A'' 4] [] of
             (Some e, k2) \<Rightarrow> (Some e, k2)
           | (None, k2) \<Rightarrow> Run k2 10000000000 [])"
    using submitters_run_in_order [OF c1 n1, where outs = "[[exPod ''w'' 1], []]" and kS = kS
      and ord = "[]" and evs = "[]"] h1 kS_def by blast+
  have failed: "Run simSubmitFails 0 [Tick [] [], Tick [] []] = (Some (PluginError ''submitter''), kE)"
    using submitters_run_in_order [OF c2 n2, where outs = "[[exPod ''w'' 1]]" and pre = "[submitOne]"
      and s = submitFails and post = "[submitOne]" and err = "PluginError ''submitter''"
      and kE = kE and ord = "[]" and evs = "[Tick [] []]"] h2 h3 h4 kE_def by blast
  have r1: "submit simSubmit 10000000000 [exNode ''A'' 4] =
       (None, simSubmit\<lparr>pods := [exPod ''w'' 1],
          trace := [SubmitCall 0 10000000000 [exNode ''A'' 4],
                    SubmitCall 1 10000000000 [exNode ''A'' 4]]\<rparr>)"
    using sub by (simp only: kS)
  have r2: "Run simSubmit 0 [Tick [] []] =
       (None, simSubmit\<lparr>nodes := [(''A'', (exNode ''A'' 4)\<lparr>allocation := [(''cpu'', 1)]\<rparr>)],
          pods := [],
          trace := [SubmitCall 0 10000000000 [exNode ''A'' 4],
                    SubmitCall 1 10000000000 [exNode ''A'' 4],
                    ScoreCall 0 (exPod ''w'' 1) [exNode ''A'' 4],
                    CreatePodCall ''A'' 10000000000 ((exPod ''w'' 1)\<lparr>nodeName := ''A''\<rparr>)]\<rparr>)"
    using run by (simp only: attempt prod.case option.case Run.simps(1))
  have r3: "Run simSubmitFails 0 [Tick [] [], Tick [] []] =
       (Some (PluginError ''submitter''),
        simSubmitFails\<lparr>pods := [exPod ''w'' 1],
          trace := [SubmitCall 0 10000000000 [exNode ''A'' 4],
                    SubmitCall 1 10000000000 [exNode ''A'' 4]]\<rparr>)"
    using failed by (simp only: kE)
  show ?thesis by (intro conjI h1 r1 r2 h2 h3 h4 r3)
qed

text \<open>
  C9 as stated does not hold: of three registered submitters the second fails, and on that
  tick the third is never called.
\<close>

theorem failing_submitter_stops_later_submitters:
  "submitters simSubmitFails = [submitOne, submitFails, submitOne]
   \<and> Run simSubmitFails 0 [Tick [] []] =
       (Some (PluginError ''submitter''),
        simSubmitFails\<lparr>pods := [exPod ''w'' 1],
          trace := [SubmitCall 0 10000000000 [exNode ''A'' 4],
                    SubmitCall 1 10000000000 [exNode ''A'' 4]]\<rparr>)"
  by (simp add: Let_def snapshot_def ToV1_def clock_Add_def time_Second_def submit_def
      callSubmit_def append_pod_def simSubmitFails_def simSubmit_def submitOne_def
      submitFails_def)

text \<open>
  C10, as amended. If the registry holds no node whose name is the empty string, and no
  scorer is registered, or the scorers return no score, or the scorers succeed and every
  accumulated total is at most -1, then \<open>scheduleOneScore\<close> selects no node: the running
  maximum stays at its initial -1 with the empty name, the lookup of the empty name fails,
  and the result is the NotFound error for the empty name. When a tick reaches scoring
  with such a pod (the submitters and the filters returned no error), \<open>Run\<close> returns that
  error.
\<close>

theorem unselectable_is_NotFound:
  assumes sel: "scorers k = []
      \<or> list_all (\<lambda>s. case s p ns of Inr ([], w) \<Rightarrow> True | _ \<Rightarrow> False) (scorers k)
      \<or> (\<exists>answers. map (\<lambda>s. s p ns) (scorers k) = map Inr answers
            \<and> list_all (\<lambda>h. weightedTotal answers h \<le>s - 1) (scoredHosts answers))"
      and reg: "map_of (nodes k) '''' = None"
  shows "fst (scheduleOneScore k p ns ord) = Inl (NotFound '''')
     \<and> (ns = snapshot k ordNodes
          \<and> submit k (clock_Add clk (tick k * time_Second)) ns = (None, k1)
          \<and> pop (pods k1) = (Inr p, q)
          \<and> fst (scheduleOneFilter (k1\<lparr>pods := q\<rparr>) p ns) = None
        \<longrightarrow> fst (Run k clk (Tick ordNodes ord # evs)) = Some (NotFound ''''))"
proof -
  have general: "fst (scheduleOneScore k' p ns ord) = Inl (NotFound '''')"
    if same: "scorers k' = scorers k" "nodes k' = nodes k" for k'
  proof -
    from sel consider
      (none) "scorers k = []"
      | (empty) "list_all (\<lambda>s. case s p ns of Inr ([], w) \<Rightarrow> True | _ \<Rightarrow> False) (scorers k)"
      | (low) answers where "map (\<lambda>s. s p ns) (scorers k) = map Inr answers"
          "list_all (\<lambda>h. weightedTotal answers h \<le>s - 1) (scoredHosts answers)"
      by blast
    then show ?thesis
    proof cases
      case none
      then have "list_all (\<lambda>s. case s p ns of Inr ([], w) \<Rightarrow> True | _ \<Rightarrow> False) (scorers k')"
        using same by simp
      then show ?thesis using reg same by (intro scheduleOneScore_no_scores) simp_all
    next
      case empty
      then show ?thesis using reg same by (intro scheduleOneScore_no_scores) simp_all
    next
      case low
      then show ?thesis using reg same by (intro scheduleOneScore_low_totals [where answers = answers]) simp_all
    qed
  qed
  have first: "fst (scheduleOneScore k p ns ord) = Inl (NotFound '''')"
    by (rule general) simp_all
  have second: "fst (Run k clk (Tick ordNodes ord # evs)) = Some (NotFound '''')"
    if snap: "ns = snapshot k ordNodes"
      and sub: "submit k (clock_Add clk (tick k * time_Second)) ns = (None, k1)"
      and popped: "pop (pods k1) = (Inr p, q)"
      and filt: "fst (scheduleOneFilter (k1\<lparr>pods := q\<rparr>) p ns) = None"
  proof -
    obtain k2 where k2: "scheduleOneFilter (k1\<lparr>pods := q\<rparr>) p ns = (None, k2)"
      using filt by (cases "scheduleOneFilter (k1\<lparr>pods := q\<rparr>) p ns") auto
    have "scorers k2 = scorers k" "nodes k2 = nodes k"
      using scheduleOneFilter_fields [OF k2] submit_fields [OF sub] by simp_all
    then have "fst (scheduleOneScore k2 p ns ord) = Inl (NotFound '''')" by (rule general)
    with popped k2 have "fst (scheduleOne k1 (clock_Add clk (tick k * time_Second)) ns ord)
        = Some (NotFound '''')" by (rule scheduleOne_score_error)
    then have failed: "fst (scheduleOne k1 (clock_Add clk (tick k * time_Second))
        (snapshot k ordNodes) ord) = Some (NotFound '''')" by (simp add: snap)
    have "submit k (clock_Add clk (tick k * time_Second)) (snapshot k ordNodes) = (None, k1)"
      using sub by (simp add: snap)
    from Run_scheduleOne_error [OF this failed] show ?thesis by simp
  qed
  from first second show ?thesis by blast
qed

theorem unselectable_is_NotFound_witness:
  "scorers simNoScorer = []
   \<and> map_of (nodes simNoScorer) '''' = None
   \<and> [exNode ''A'' 4] = snapshot simNoScorer []
   \<and> submit simNoScorer (clock_Add 0 (tick simNoScorer * time_Second)) [exNode ''A'' 4]
        = (None, simNoScorer)
   \<and> pop (pods simNoScorer) = (Inr (exPod ''w'' 1), [])
   \<and> fst (scheduleOneFilter (simNoScorer\<lparr>pods := []\<rparr>) (exPod ''w'' 1) [exNode ''A'' 4]) = None
   \<and> fst (scheduleOneScore simNoScorer (exPod ''w'' 1) [exNode ''A'' 4] []) = Inl (NotFound '''')
   \<and> fst (Run simNoScorer 0 [Tick [] []]) = Some (NotFound '''')"
proof -
  have h1: "scorers simNoScorer = []"
    by (simp add: simNoScorer_def simS1S2_def)
  have h2: "map_of (nodes simNoScorer) '''' = None"
    by (simp add: simNoScorer_def simS1S2_def)
  have h3: "[exNode ''A'' 4] = snapshot simNoScorer []"
    by (simp add: snapshot_def ToV1_def simNoScorer_def simS1S2_def)
  have h4: "submit simNoScorer (clock_Add 0 (tick simNoScorer * time_Second)) [exNode ''A'' 4]
        = (None, simNoScorer)"
    by (simp add: submit_def simNoScorer_def simS1S2_def)
  have h5: "pop (pods simNoScorer) = (Inr (exPod ''w'' 1), [])"
    by (simp add: simNoScorer_def simS1S2_def)
  have h6: "fst (scheduleOneFilter (simNoScorer\<lparr>pods := []\<rparr>) (exPod ''w'' 1) [exNode ''A'' 4]) = None"
    by (simp add: scheduleOneFilter_def simNoScorer_def simS1S2_def)
  from unselectable_is_NotFound [where k = simNoScorer and p = "exPod ''w'' 1"
      and ns = "[exNode ''A'' 4]" and ord = "[]" and ordNodes = "[]" and clk = 0
      and ?k1.0 = simNoScorer and q = "[]" and evs = "[]", OF disjI1 [OF h1] h2]
    h1 h2 h3 h4 h5 h6
  show ?thesis by simp
qed

text \<open>
  C10 as stated does not hold: with no scorer registered and a registry whose node has the
  empty name, the lookup of the empty name succeeds, that node is selected, the pod is
  bound, and \<open>Run\<close> goes on without an error.
\<close>

theorem nameless_node_selected_without_scorer:
  "scorers simNameless = []
   \<and> fst (scheduleOneScore simNameless (exPod ''w'' 1) (snapshot simNameless []) [])
       = Inr ('''', exNode '''' 4, (exPod ''w'' 1)\<lparr>nodeName := ''''\<rparr>)
   \<and> fst (Run simNameless 0 [Tick [] []]) = None"
  by (simp add: simNameless_def exNode_def exPod_def snapshot_def ToV1_def scheduleOneScore_def
      submit_def scheduleOne_def scheduleOneFilter_def callCreatePod_def CreatePod_def fits_def
      qty_def allocate_def Let_def)

end
